theory Spec2Isabelle
  imports Main "HOL-Library.Sublist" "HOL-Library.Char_ord" "HOL-Library.List_Lexorder"
    "HOL-Library.Product_Lexorder"
begin

text \<open>
  The scanner, the parser and the index file of \<^verbatim>\<open>sebastes\<close>, a generator of
  client libraries for Redfish services: the scan of a service (\<^verbatim>\<open>scanner.py\<close>),
  the steps of the parser over the draft definitions (\<^verbatim>\<open>parser.py\<close>) and the text of
  the index file (\<^verbatim>\<open>processor.py\<close>). What lies outside the repository is a
  parameter: the transport, the generator behind \<open>random.sample\<close>, and the library
  that infers the draft definitions and renders their type hints.
\<close>

section \<open>Strings\<close>

text \<open>
  Python strings are modelled as \<open>string\<close>; the case conversions act on the ASCII
  letters, which is what the type names and URIs of a Redfish service are made of.
\<close>

definition lower_char :: "char \<Rightarrow> char" where
  "lower_char c =
     (case map_of (zip ''ABCDEFGHIJKLMNOPQRSTUVWXYZ'' ''abcdefghijklmnopqrstuvwxyz'') c of
        None \<Rightarrow> c | Some d \<Rightarrow> d)"

definition upper_char :: "char \<Rightarrow> char" where
  "upper_char c =
     (case map_of (zip ''abcdefghijklmnopqrstuvwxyz'' ''ABCDEFGHIJKLMNOPQRSTUVWXYZ'') c of
        None \<Rightarrow> c | Some d \<Rightarrow> d)"

definition lower :: "string \<Rightarrow> string" where
  "lower s = map lower_char s"

text \<open>\<open>starts_with p s\<close> is \<open>s.startswith(p)\<close>; \<open>contains p s\<close> is \<open>p in s\<close>.\<close>

fun starts_with :: "string \<Rightarrow> string \<Rightarrow> bool" where
  "starts_with [] s = True"
| "starts_with (p # ps) [] = False"
| "starts_with (p # ps) (c # cs) = (p = c \<and> starts_with ps cs)"

fun contains :: "string \<Rightarrow> string \<Rightarrow> bool" where
  "contains p [] = (p = [])"
| "contains p (c # cs) = (starts_with p (c # cs) \<or> contains p cs)"

text \<open>
  \<open>split_on d s\<close> is \<open>s.split(d)\<close> for a one-character separator: it never returns
  the empty list.
\<close>

fun split_on :: "char \<Rightarrow> string \<Rightarrow> string list" where
  "split_on d [] = [[]]"
| "split_on d (c # cs) =
     (if c = d then [] # split_on d cs
      else (case split_on d cs of
              [] \<Rightarrow> [[c]]
            | w # ws \<Rightarrow> (c # w) # ws))"

text \<open>
  \<open>replace old new s\<close> is \<open>s.replace(old, new)\<close>: the occurrences of \<open>old\<close> are
  replaced from the left and do not overlap. The first argument counts the characters of
  the occurrence being skipped.
\<close>

fun replace_from :: "nat \<Rightarrow> string \<Rightarrow> string \<Rightarrow> string \<Rightarrow> string" where
  "replace_from k old new [] = []"
| "replace_from (Suc k) old new (c # cs) = replace_from k old new cs"
| "replace_from 0 old new (c # cs) =
     (if starts_with old (c # cs) then new @ replace_from (length old - 1) old new cs
      else c # replace_from 0 old new cs)"

definition replace :: "string \<Rightarrow> string \<Rightarrow> string \<Rightarrow> string" where
  "replace old new s =
     (if old = [] then new @ concat (map (\<lambda>c. c # new) s)
      else replace_from 0 old new s)"

section \<open>JSON values and errors\<close>

text \<open>
  The parsed body of a response. An object is the list of its items in the order
  \<open>dict.items()\<close> yields them, each key once. \<open>JNum\<close> stands for every number: the
  code treats a number as what is neither a string nor a list nor a dictionary.
\<close>

datatype json =
    JNull
  | JBool bool
  | JNum int
  | JStr string
  | JArr "json list"
  | JObj "(string \<times> json) list"

text \<open>
  The exceptions that the scanner can meet: a failed request (connection error, or a
  response that is not OK, with the text the exception carries), the errors Python
  raises when a value has not the shape the code expects, and the error it raises when
  the calls nest deeper than the interpreter allows.
\<close>

datatype error =
    TransportFailure string
  | AttributeError
  | TypeError
  | IndexError
  | ValueError
  | RecursionError

fun str_error :: "error \<Rightarrow> string" where
  "str_error (TransportFailure msg) = msg"
| "str_error AttributeError = ''AttributeError''"
| "str_error TypeError = ''TypeError''"
| "str_error IndexError = ''IndexError''"
| "str_error ValueError = ''ValueError''"
| "str_error RecursionError = ''RecursionError''"

text \<open>\<open>dict_get d k\<close> is \<open>d.get(k, None)\<close> on the items of a dictionary.\<close>

definition dict_get :: "(string \<times> json) list \<Rightarrow> string \<Rightarrow> json" where
  "dict_get d k = (case map_of d k of None \<Rightarrow> JNull | Some v \<Rightarrow> v)"

section \<open>Scanned data: \<open>RedfishData\<close>\<close>

datatype RedfishCategory = RESOURCE | COLLECTION | ELEMENT | UNKNOWN

datatype RedfishData =
  RedfishData (name: string) (data: json) (uri: string) (parent: "RedfishData option")

fun category :: "RedfishData \<Rightarrow> RedfishCategory" where
  "category (RedfishData n d u p) =
     (if contains ''collection'' (lower n) then COLLECTION
      else (case p of
              None \<Rightarrow> RESOURCE
            | Some q \<Rightarrow>
                if category q = COLLECTION \<and> contains n (name q) then ELEMENT
                else RESOURCE))"

definition full_name :: "RedfishData \<Rightarrow> string" where
  "full_name m = (case parent m of Some q \<Rightarrow> name q @ name m | None \<Rightarrow> name m)"

text \<open>\<open>RedfishData.__eq__\<close> on two instances of the class.\<close>

definition eq_data :: "RedfishData \<Rightarrow> RedfishData \<Rightarrow> bool" where
  "eq_data self other = (full_name other = full_name self)"

section \<open>The scanner\<close>

record Problem =
  url :: string
  description :: string

subsection \<open>\<open>Scanner._get_model_name\<close>\<close>

text \<open>
  \<open>data.get\<close> needs a dictionary and \<open>split\<close> a string (\<open>AttributeError\<close> otherwise);
  \<open>value[0]\<close> raises \<open>IndexError\<close> when the type tag ends in a dot. A missing or null
  tag gives \<open>None\<close>.
\<close>

definition get_model_name :: "json \<Rightarrow> error + string option" where
  "get_model_name d =
     (case d of
        JObj items \<Rightarrow>
          (case dict_get items ''@odata.type'' of
             JNull \<Rightarrow> Inr None
           | JStr odata_type \<Rightarrow>
               (let v = last (split_on CHR ''.'' odata_type);
                    v = replace ''collection'' ''Collection'' v;
                    v = replace ''entry'' ''Entry'' v
                in (case v of
                      [] \<Rightarrow> Inl IndexError
                    | c # cs \<Rightarrow> Inr (Some (upper_char c # cs))))
           | _ \<Rightarrow> Inl AttributeError)
      | _ \<Rightarrow> Inl AttributeError)"

subsection \<open>\<open>random.sample\<close>\<close>

text \<open>
  The generator of the \<open>random\<close> module is outside the repository. It is a parameter:
  from the generator's state, the size of the population and the number \<open>k\<close> asked for,
  a sampler gives the positions it selects and the generator's next state.
  \<open>random.sample(population, k)\<close> returns the elements at the selected positions and
  raises \<open>ValueError\<close> unless \<open>0 \<le> k \<le> len(population)\<close>. A position outside the
  population, which \<open>random.sample\<close> never selects, is dropped.
\<close>

type_synonym 'r sampler = "'r \<Rightarrow> nat \<Rightarrow> nat \<Rightarrow> nat list \<times> 'r"

definition random_sample ::
  "'r sampler \<Rightarrow> 'r \<Rightarrow> 'a list \<Rightarrow> int \<Rightarrow> (error + 'a list) \<times> 'r" where
  "random_sample pick g population k =
     (if k < 0 \<or> int (length population) < k then (Inl ValueError, g)
      else (case pick g (length population) (nat k) of
              (idxs, g') \<Rightarrow>
                (Inr (map ((!) population) (filter (\<lambda>i. i < length population) idxs)), g')))"

text \<open>
  The contract of \<open>random.sample\<close>: \<open>k\<close> positions of the population, no position
  twice.
\<close>

definition sampler_ok :: "'r sampler \<Rightarrow> bool" where
  "sampler_ok pick =
     (\<forall>g n k. k \<le> n \<longrightarrow>
        length (fst (pick g n k)) = k \<and> distinct (fst (pick g n k)) \<and>
        (\<forall>i \<in> set (fst (pick g n k)). i < n))"

subsection \<open>\<open>Scanner._get_uris\<close>\<close>

text \<open>\<open>len(v)\<close>, the entries a \<open>for\<close> loop over \<open>v\<close> yields, and \<open>isinstance(v, dict)\<close>.\<close>

fun py_len :: "json \<Rightarrow> error + nat" where
  "py_len (JStr s) = Inr (length s)"
| "py_len (JArr xs) = Inr (length xs)"
| "py_len (JObj d) = Inr (length d)"
| "py_len _ = Inl TypeError"

fun py_iter :: "json \<Rightarrow> json list" where
  "py_iter (JStr s) = map (\<lambda>c. JStr [c]) s"
| "py_iter (JArr xs) = xs"
| "py_iter (JObj d) = map (\<lambda>kv. JStr (fst kv)) d"
| "py_iter _ = []"

fun isinstance_dict :: "json \<Rightarrow> bool" where
  "isinstance_dict (JObj d) = True"
| "isinstance_dict _ = False"

fun depth :: "json \<Rightarrow> nat" where
  "depth (JArr xs) = Suc (foldr max (map depth xs) 0)"
| "depth (JObj d) = Suc (foldr max (map (\<lambda>kv. depth (snd kv)) d) 0)"
| "depth _ = 0"

text \<open>
  \<open>get_uris\<close> is \<open>_get_uris\<close>; \<open>get_uris_items\<close> is its loop over \<open>data.items()\<close>, with
  the list \<open>result\<close> built so far; \<open>get_uris_entries\<close> is the loop over the entries of
  \<open>Members\<close>. Each returns the generator's state with its result. \<open>data.items()\<close> needs
  a dictionary; \<open>len\<close> fails on a number, a boolean and null; \<open>random.sample\<close> refuses
  a dictionary as population.
\<close>

function (sequential)
  get_uris :: "'r sampler \<Rightarrow> int \<Rightarrow> json \<Rightarrow> 'r \<Rightarrow> (error + json list) \<times> 'r"
  and get_uris_items ::
    "'r sampler \<Rightarrow> int \<Rightarrow> (string \<times> json) list \<Rightarrow> json list \<Rightarrow> 'r \<Rightarrow> (error + json list) \<times> 'r"
  and get_uris_entries ::
    "'r sampler \<Rightarrow> int \<Rightarrow> json list \<Rightarrow> json list \<Rightarrow> 'r \<Rightarrow> (error + json list) \<times> 'r"
where
  "get_uris pick W (JObj items) g = get_uris_items pick W items [] g"
| "get_uris pick W _ g = (Inl AttributeError, g)"
| "get_uris_items pick W [] result g = (Inr result, g)"
| "get_uris_items pick W ((key, v) # rest) result g =
     (let result1 = (if key = ''@odata.id'' \<and> v \<notin> set result then result @ [v] else result) in
      case (if key = ''Members'' then
              (case py_len v of
                 Inl e \<Rightarrow> (Inl e, g)
               | Inr n \<Rightarrow>
                   if W < int n then
                     (if isinstance_dict v then (Inl TypeError, g)
                      else (case random_sample pick g (py_iter v) W of
                              (Inl e, g1) \<Rightarrow> (Inl e, g1)
                            | (Inr entries, g1) \<Rightarrow> get_uris_entries pick W entries result1 g1))
                   else get_uris_entries pick W (py_iter v) result1 g)
            else (Inr result1, g)) of
        (Inl e, g2) \<Rightarrow> (Inl e, g2)
      | (Inr result2, g2) \<Rightarrow>
          (case (if isinstance_dict v then
                   (case get_uris pick W v g2 of
                      (Inl e, g3) \<Rightarrow> (Inl e, g3)
                    | (Inr uris, g3) \<Rightarrow> (Inr (result2 @ uris), g3))
                 else (Inr result2, g2)) of
             (Inl e, g4) \<Rightarrow> (Inl e, g4)
           | (Inr result3, g4) \<Rightarrow> get_uris_items pick W rest result3 g4))"
| "get_uris_entries pick W [] result g = (Inr result, g)"
| "get_uris_entries pick W (entry # entries) result g =
     (case get_uris pick W entry g of
        (Inl e, g1) \<Rightarrow> (Inl e, g1)
      | (Inr uris, g1) \<Rightarrow> get_uris_entries pick W entries (result @ uris) g1)"
  by pat_completeness auto

lemma foldr_max_le:
  "(\<And>x. x \<in> set xs \<Longrightarrow> f x \<le> (n::nat)) \<Longrightarrow> foldr max (map f xs) 0 \<le> n"
  by (induction xs) auto

lemma le_foldr_max: "x \<in> set xs \<Longrightarrow> f x \<le> foldr max (map f xs) (0::nat)"
  by (induction xs) (auto simp: max_def)

lemma depth_py_iter: "e \<in> set (py_iter v) \<Longrightarrow> depth e \<le> depth v"
  by (cases v) (auto simp: le_foldr_max le_SucI)

lemma random_sample_subset:
  "random_sample pick g population k = (Inr entries, g1) \<Longrightarrow> set entries \<subseteq> set population"
  by (auto simp: random_sample_def split: if_splits prod.splits)

lemma depth_sampled:
  assumes "(Inr entries, g1) = random_sample pick g (py_iter v) k"
  shows "foldr max (map depth entries) 0 \<le> depth v"
proof (rule foldr_max_le)
  fix e assume "e \<in> set entries"
  moreover have "set entries \<subseteq> set (py_iter v)"
    using assms random_sample_subset [of pick g "py_iter v" k entries g1] by simp
  ultimately show "depth e \<le> depth v"
    using depth_py_iter by blast
qed

lemma depth_iterated: "foldr max (map depth (py_iter v)) 0 \<le> depth v"
  by (rule foldr_max_le) (rule depth_py_iter)

termination get_uris
proof (relation "inv_image (less_than <*lex*> less_than <*lex*> less_than)
    (\<lambda>x. case x of
       Inl (_, _, d, _) \<Rightarrow> (depth d, 0::nat, 0::nat)
     | Inr (Inl (_, _, items, _, _)) \<Rightarrow>
         (foldr max (map (\<lambda>kv. depth (snd kv)) items) 0, 2, length items)
     | Inr (Inr (_, _, es, _, _)) \<Rightarrow> (foldr max (map depth es) 0, 1, length es))", goal_cases)
  case 1
  show ?case by (intro wf_inv_image wf_lex_prod wf_less_than)
next
  case 2
  then show ?case by simp
next
  case (3 pick W key v rest result g x b xa y ba)
  then have "foldr max (map depth ba) 0 \<le> depth v"
    using depth_sampled [of ba y pick g v W] by simp
  then show ?case by (auto simp: max_def)
next
  case (4 pick W key v rest result g x b)
  have "foldr max (map depth (py_iter v)) 0 \<le> depth v"
    by (rule depth_iterated)
  then show ?case by (auto simp: max_def)
next
  case 5
  show ?case by (auto simp: max_def)
next
  case 6
  show ?case by (auto simp: max_def)
next
  case 7
  show ?case by (auto simp: max_def)
next
  case 8
  show ?case by (auto simp: max_def)
qed

subsection \<open>The scanner's state\<close>

text \<open>
  The fields of \<open>Scanner\<close> that a scan reads and writes, and the state of the
  generator behind \<open>random.sample\<close>. The host name and the credentials only reach the
  transport, which is the parameter \<open>get_json\<close> of the scan: \<open>get_json u\<close> is the parsed
  body of the response for \<open>u\<close>, or the exception of \<open>_get_json\<close>. A scan marks a URI
  before it fetches it and fetches no marked URI, so it sees one answer for a URI at most.
\<close>

record 'r Scanner =
  max_models :: int
  max_collection :: int
  redfish :: "RedfishData list"
  scanned_uris :: "string list"
  problems :: "Problem list"
  rng :: 'r

definition Scanner_init :: "int \<Rightarrow> int \<Rightarrow> 'r \<Rightarrow> 'r Scanner" where
  "Scanner_init max_models_arg max_collection_arg g =
     \<lparr>max_models = max_models_arg, max_collection = max_collection_arg, redfish = [],
      scanned_uris = [], problems = [], rng = g\<rparr>"

definition add_problem :: "'r Scanner \<Rightarrow> string \<Rightarrow> error \<Rightarrow> 'r Scanner" where
  "add_problem s entry_point e =
     s\<lparr>problems := problems s @ [\<lparr>url = entry_point, description = str_error e\<rparr>]\<rparr>"

subsection \<open>\<open>Scanner.scan_models\<close>\<close>

text \<open>
  \<open>scan_models get_json pick n s entry_point par\<close> is one call of \<open>scan_models\<close> on
  the scanner \<open>s\<close>, where \<open>n\<close> is the number of nested calls of \<open>scan_models\<close> that
  the interpreter's stack still admits, this call included. The interpreter bounds the
  depth of the call stack (\<open>sys.getrecursionlimit()\<close>): a call that finds no room
  raises \<open>RecursionError\<close> before its body runs, and the exception reaches the \<open>try\<close>
  block of the call that made it. A call returns the scanner it leaves (\<open>Inr\<close>) or the
  exception that leaves it (\<open>Inl\<close>). The frames of the calls into the libraries are
  not counted.

  An exception leaves a call that has room in one place only, before the \<open>try\<close>
  block: when the budget is not used up and the entry point is not a string,
  \<open>entry_point.lower()\<close> raises \<open>AttributeError\<close>. Everything raised inside the
  \<open>try\<close> block, the exception of a nested call included, is caught by
  \<open>except Exception\<close> and recorded as a problem of this call's entry point.

  \<open>scan_uris\<close> is the loop \<open>for uri in self._get_uris(data)\<close> inside the \<open>try\<close>
  block: its second result is the exception that leaves the loop, if any. The list of
  the scanned URIs holds strings only, so a value that is not a string is not in it.
\<close>

fun scan_uris ::
  "('r Scanner \<Rightarrow> json \<Rightarrow> RedfishData option \<Rightarrow> error + 'r Scanner) \<Rightarrow>
   'r Scanner \<Rightarrow> json list \<Rightarrow> RedfishData option \<Rightarrow> 'r Scanner \<times> error option" where
  "scan_uris call s [] model = (s, None)"
| "scan_uris call s (x # uris) model =
     (if (case x of JStr u \<Rightarrow> u \<notin> set (scanned_uris s) | _ \<Rightarrow> True) then
        (case call s x model of
           Inl e \<Rightarrow> (s, Some e)
         | Inr s' \<Rightarrow> scan_uris call s' uris model)
      else scan_uris call s uris model)"

primrec scan_models ::
  "(string \<Rightarrow> error + json) \<Rightarrow> 'r sampler \<Rightarrow> nat \<Rightarrow>
   'r Scanner \<Rightarrow> json \<Rightarrow> RedfishData option \<Rightarrow> error + 'r Scanner" where
  "scan_models get_json pick 0 s entry_point par = Inl RecursionError"
| "scan_models get_json pick (Suc n) s entry_point par =
     (if int (length (redfish s)) < max_models s then
        (case entry_point of
           JStr entry \<Rightarrow>
             if entry \<notin> set (scanned_uris s) \<and> \<not> contains ''jsonschemas'' (lower entry) then
               (let s1 = s\<lparr>scanned_uris := scanned_uris s @ [entry]\<rparr> in
                case get_json entry of
                  Inl e \<Rightarrow> Inr (add_problem s1 entry e)
                | Inr d \<Rightarrow>
                    (case get_model_name d of
                       Inl e \<Rightarrow> Inr (add_problem s1 entry e)
                     | Inr nm \<Rightarrow>
                         (let model =
                                (case nm of
                                   None \<Rightarrow> None
                                 | Some n' \<Rightarrow>
                                     if (case par of None \<Rightarrow> True | Some p \<Rightarrow> name p \<noteq> n')
                                     then Some (RedfishData n' d entry par)
                                     else None);
                              s2 = (case model of
                                      None \<Rightarrow> s1
                                    | Some m \<Rightarrow>
                                        if \<not> list_ex (\<lambda>x. eq_data x m) (redfish s1)
                                        then s1\<lparr>redfish := redfish s1 @ [m]\<rparr>
                                        else s1)
                          in case get_uris pick (max_collection s2) d (rng s2) of
                               (Inl e, g) \<Rightarrow> Inr (add_problem (s2\<lparr>rng := g\<rparr>) entry e)
                             | (Inr uris, g) \<Rightarrow>
                                 (case scan_uris (scan_models get_json pick n) (s2\<lparr>rng := g\<rparr>) uris model of
                                    (s3, None) \<Rightarrow> Inr s3
                                  | (s3, Some e) \<Rightarrow> Inr (add_problem s3 entry e)))))
             else Inr s
         | _ \<Rightarrow> Inl AttributeError)
      else Inr s)"

text \<open>The steps of one call, named for the proofs.\<close>

definition new_model ::
  "RedfishData option \<Rightarrow> string option \<Rightarrow> json \<Rightarrow> string \<Rightarrow> RedfishData option" where
  "new_model par nm d entry =
     (case nm of
        None \<Rightarrow> None
      | Some n' \<Rightarrow>
          if (case par of None \<Rightarrow> True | Some p \<Rightarrow> name p \<noteq> n')
          then Some (RedfishData n' d entry par)
          else None)"

definition register :: "'r Scanner \<Rightarrow> RedfishData option \<Rightarrow> 'r Scanner" where
  "register s model =
     (case model of
        None \<Rightarrow> s
      | Some m \<Rightarrow>
          if \<not> list_ex (\<lambda>x. eq_data x m) (redfish s) then s\<lparr>redfish := redfish s @ [m]\<rparr> else s)"

definition finish :: "string \<Rightarrow> 'r Scanner \<times> error option \<Rightarrow> 'r Scanner" where
  "finish entry r =
     (case r of
        (s, None) \<Rightarrow> s
      | (s, Some e) \<Rightarrow> add_problem s entry e)"

definition budget_left :: "'r Scanner \<Rightarrow> bool" where
  "budget_left s \<longleftrightarrow> int (length (redfish s)) < max_models s"

definition excluded :: "string \<Rightarrow> bool" where
  "excluded entry \<longleftrightarrow> contains ''jsonschemas'' (lower entry)"

definition visits :: "'r Scanner \<Rightarrow> string \<Rightarrow> bool" where
  "visits s entry \<longleftrightarrow>
     int (length (redfish s)) < max_models s \<and> entry \<notin> set (scanned_uris s) \<and>
     \<not> contains ''jsonschemas'' (lower entry)"

definition mark :: "'r Scanner \<Rightarrow> string \<Rightarrow> 'r Scanner" where
  "mark s entry = s\<lparr>scanned_uris := scanned_uris s @ [entry]\<rparr>"

text \<open>
  What a scan does to the scanner: it marks a URI whose fetch failed and records the
  problem; it marks a URI that was fetched, and registers or not the node built from
  what was fetched; it records a problem for a URI fetched before; it draws from the
  generator.
\<close>

inductive effects :: "(string \<Rightarrow> error + json) \<Rightarrow> 'r Scanner \<Rightarrow> 'r Scanner \<Rightarrow> bool"
  for get_json :: "string \<Rightarrow> error + json" where
  unchanged: "effects get_json s s"
| sequence: "effects get_json s t \<Longrightarrow> effects get_json t u \<Longrightarrow> effects get_json s u"
| fetch_failed:
    "int (length (redfish s)) < max_models s \<Longrightarrow> e \<notin> set (scanned_uris s) \<Longrightarrow>
     get_json e = Inl err \<Longrightarrow>
     effects get_json s (add_problem (s\<lparr>scanned_uris := scanned_uris s @ [e]\<rparr>) e err)"
| visited:
    "int (length (redfish s)) < max_models s \<Longrightarrow> e \<notin> set (scanned_uris s) \<Longrightarrow>
     get_json e = Inr d \<Longrightarrow>
     effects get_json s (s\<lparr>scanned_uris := scanned_uris s @ [e]\<rparr>)"
| registered:
    "int (length (redfish s)) < max_models s \<Longrightarrow> e \<notin> set (scanned_uris s) \<Longrightarrow>
     get_json e = Inr d \<Longrightarrow> get_model_name d = Inr (Some nm) \<Longrightarrow>
     new_model par (Some nm) d e = Some m \<Longrightarrow>
     \<not> list_ex (\<lambda>x. eq_data x m) (redfish s) \<Longrightarrow>
     effects get_json s (s\<lparr>scanned_uris := scanned_uris s @ [e], redfish := redfish s @ [m]\<rparr>)"
| failed_later:
    "e \<in> set (scanned_uris s) \<Longrightarrow> get_json e = Inr d \<Longrightarrow>
     effects get_json s (add_problem s e err)"
| sampled: "effects get_json s (s\<lparr>rng := g\<rparr>)"

text \<open>
  What remains of the loop over \<open>data.items()\<close> once the entries of \<open>Members\<close> have
  been followed: the error ends the call, a result goes on with the items left.
\<close>

definition items_after ::
  "'r sampler \<Rightarrow> int \<Rightarrow> (string \<times> json) list \<Rightarrow> (error + json list) \<times> 'r \<Rightarrow> (error + json list) \<times> 'r" where
  "items_after pick W rest r =
     (case r of
        (Inl e, g) \<Rightarrow> (Inl e, g)
      | (Inr result, g) \<Rightarrow> get_uris_items pick W rest result g)"

text \<open>
  What it is to follow the entries of \<open>Members\<close>: \<open>_get_uris\<close> is applied to each
  entry in turn, from the state of the generator that the entry before has left, and
  gives the URIs of the entry; the first exception ends the loop. The URIs of the
  entries followed are appended to the list built so far.
\<close>

fun followed_entries ::
  "'r sampler \<Rightarrow> int \<Rightarrow> json list \<Rightarrow> 'r \<Rightarrow> (error + json list list) \<times> 'r" where
  "followed_entries pick W [] g = (Inr [], g)"
| "followed_entries pick W (entry # entries) g =
     (case get_uris pick W entry g of
        (Inl e, g1) \<Rightarrow> (Inl e, g1)
      | (Inr uris, g1) \<Rightarrow>
          (case followed_entries pick W entries g1 of
             (Inl e, g2) \<Rightarrow> (Inl e, g2)
           | (Inr others, g2) \<Rightarrow> (Inr (uris # others), g2)))"

definition append_followed ::
  "json list \<Rightarrow> (error + json list list) \<times> 'r \<Rightarrow> (error + json list) \<times> 'r" where
  "append_followed result r =
     (case r of
        (Inl e, g) \<Rightarrow> (Inl e, g)
      | (Inr uss, g) \<Rightarrow> (Inr (result @ concat uss), g))"

text \<open>
  \<open>RedfishData.collection_uris\<close>: the \<open>@odata.id\<close> of every entry of \<open>Members\<close> that
  is a dictionary and has one. The loop over the entries needs a value that can be
  iterated.
\<close>

definition member_links :: "json list \<Rightarrow> json list" where
  "member_links entries =
     concat (map (\<lambda>entry. case entry of
                             JObj e \<Rightarrow> (case dict_get e ''@odata.id'' of JNull \<Rightarrow> [] | u \<Rightarrow> [u])
                           | _ \<Rightarrow> []) entries)"

fun collection_uris_items :: "(string \<times> json) list \<Rightarrow> json list \<Rightarrow> error + json list" where
  "collection_uris_items [] result = Inr result"
| "collection_uris_items ((key, v) # rest) result =
     (if key = ''Members'' then
        (case py_len v of
           Inl e \<Rightarrow> Inl TypeError
         | Inr n \<Rightarrow> collection_uris_items rest (result @ member_links (py_iter v)))
      else collection_uris_items rest result)"

definition collection_uris :: "RedfishData \<Rightarrow> error + json list" where
  "collection_uris m =
     (case data m of
        JObj d \<Rightarrow> collection_uris_items d []
      | _ \<Rightarrow> Inl AttributeError)"

section \<open>The parser\<close>

subsection \<open>Categories and their fields\<close>

text \<open>
  \<open>DataModelCategory\<close>, with the suffix that keeps its members apart from those of
  \<open>RedfishCategory\<close>. The two tables are dictionaries in the order of their keys;
  \<open>fields_get\<close> is the lookup, which the parser makes for the four categories of the
  tables only.
\<close>

datatype DataModelCategory = ACTION_MODEL | LINK_MODEL | RESOURCE_MODEL | COLLECTION_MODEL | UNKNOWN_MODEL

fun category_value :: "DataModelCategory \<Rightarrow> string" where
  "category_value ACTION_MODEL = ''Action''"
| "category_value LINK_MODEL = ''Link''"
| "category_value RESOURCE_MODEL = ''Resource''"
| "category_value COLLECTION_MODEL = ''Collection''"
| "category_value UNKNOWN_MODEL = ''???''"

definition category_fields :: "(DataModelCategory \<times> string list) list" where
  "category_fields =
     [(LINK_MODEL, [''odata_id'']),
      (ACTION_MODEL, [''target'']),
      (RESOURCE_MODEL, [''odata_id'', ''odata_type'']),
      (COLLECTION_MODEL, [''odata_id'', ''odata_type'', ''members_odata_count'', ''members''])]"

definition optional_fields :: "(DataModelCategory \<times> string list) list" where
  "optional_fields =
     [(LINK_MODEL, []),
      (ACTION_MODEL, [''redfish_action_info'']),
      (RESOURCE_MODEL, [''id'', ''odata_context'', ''description'', ''name'']),
      (COLLECTION_MODEL,
         [''id'', ''odata_context'', ''description'', ''name'', ''members_odata_next_link''])]"

definition fields_get :: "(DataModelCategory \<times> string list) list \<Rightarrow> DataModelCategory \<Rightarrow> string list" where
  "fields_get table c = (case map_of table c of None \<Rightarrow> [] | Some names \<Rightarrow> names)"

subsection \<open>Draft definitions\<close>

text \<open>
  What the parser reads and writes of the generator library's data types, fields and
  models. A data type names a type or refers to a definition, may wrap other data
  types, and carries the flags and the import that \<open>_get_data_type\<close> sets. A model has
  the name of its reference, its fields, base classes, methods, additional imports and
  description.
\<close>

datatype DataType =
  DataType (type_name: "string option") (reference: "string option") (data_types: "DataType list")
    (is_optional: bool) (is_dict: bool) (is_list: bool) (is_custom_type: bool)
    (import_from: "(string \<times> string) option")

record DataModelField =
  field_name :: string
  data_type :: DataType
  default_value :: "string option"

record CustomDataModel =
  model_name :: string
  model_fields :: "DataModelField list"
  base_classes :: "DataType list"
  methods :: "string list"
  additional_imports :: "(string \<times> string) list"
  model_description :: "json option"

subsection \<open>\<open>CustomDataModel\<close>\<close>

text \<open>
  The constructor renames the fields (\<open>process_fields\<close>). \<open>names_are_present\<close> is the
  loop of \<open>_fields_are_present\<close>; \<open>model_category\<close> is the property \<open>category\<close>, a loop
  over the items of \<open>category_fields\<close> that keeps the last category whose fields are
  present.
\<close>

definition replace_words :: "(string \<times> string) list" where
  "replace_words =
     [(''_odata_id'', ''odata_id''),
      (''_odata_context'', ''odata_context''),
      (''_odata_type'', ''odata_type''),
      (''__redfish__action_info'', ''redfish_action_info''),
      (''__'', ''_'')]"

definition process_fields :: "DataModelField list \<Rightarrow> DataModelField list" where
  "process_fields fs =
     map (\<lambda>field. fold (\<lambda>(old, new) f. f\<lparr>field_name := replace old new (field_name f)\<rparr>)
            replace_words field) fs"

definition CustomDataModel_init ::
  "string \<Rightarrow> DataModelField list \<Rightarrow> DataType list \<Rightarrow> CustomDataModel" where
  "CustomDataModel_init reference_name fs bases =
     \<lparr>model_name = reference_name, model_fields = process_fields fs, base_classes = bases,
      methods = [], additional_imports = [], model_description = None\<rparr>"

fun names_are_present :: "string list \<Rightarrow> string list \<Rightarrow> bool" where
  "names_are_present field_names [] = True"
| "names_are_present field_names (n # names) =
     (if n \<notin> set field_names then False else names_are_present field_names names)"

definition fields_are_present :: "CustomDataModel \<Rightarrow> string list \<Rightarrow> bool" where
  "fields_are_present m names = names_are_present (map field_name (model_fields m)) names"

definition model_category :: "CustomDataModel \<Rightarrow> DataModelCategory" where
  "model_category m =
     fold (\<lambda>(cat, names) c. if fields_are_present m names then cat else c)
       category_fields UNKNOWN_MODEL"

subsection \<open>\<open>Parser\<close>\<close>

text \<open>
  \<open>_get_data_type\<close> builds the data type of a canonical base type, and \<open>imports_of\<close> is
  the import such a data type brings. The library renders the type hint of a field; it
  is the parameter \<open>type_hint\<close> of \<open>_clean_up_models\<close>, read again after each
  assignment to the field's data type, as the property is. A model is in \<open>targets\<close>
  when it had the category on entry: the loops change no field name.
\<close>

definition get_data_type :: "DataModelCategory \<Rightarrow> string option \<Rightarrow> bool \<Rightarrow> DataType" where
  "get_data_type c collection optional =
     DataType (Some (category_value c)) None [] optional
       (collection = Some ''Dict'') (collection = Some ''List'') True
       (Some (''.common'', category_value c))"

definition imports_of :: "DataType \<Rightarrow> (string \<times> string) list" where
  "imports_of dt = (case import_from dt of None \<Rightarrow> [] | Some i \<Rightarrow> [i])"

definition resource_method :: "string \<Rightarrow> string" where
  "resource_method child =
     [CHR 0x0A] @ ''    @classmethod'' @ [CHR 0x0A] @
     ''    def resource(cls) -> Type['' @ child @ '']:'' @ [CHR 0x0A] @
     ''        return '' @ child @ [CHR 0x0A] @ ''        ''"

definition update_collection_methods ::
  "RedfishData \<Rightarrow> RedfishData option \<Rightarrow> CustomDataModel list \<Rightarrow> CustomDataModel list" where
  "update_collection_methods redfish_data child_data models =
     map (\<lambda>m. case child_data of
                 None \<Rightarrow> m
               | Some child \<Rightarrow>
                   if model_category m = COLLECTION_MODEL \<and> model_name m = full_name redfish_data
                   then m\<lparr>methods := methods m @ [resource_method (full_name child)],
                          additional_imports := additional_imports m @ [(''typing'', ''Type'')]\<rparr>
                   else m) models"

definition clean_field ::
  "(DataModelField \<Rightarrow> string) \<Rightarrow> DataModelCategory \<Rightarrow> string list \<Rightarrow> DataModelField \<Rightarrow> DataModelField" where
  "clean_field type_hint c names f =
     (let f1 = (if type_hint f \<in> set names
                then f\<lparr>data_type := get_data_type c None False\<rparr> else f);
          f2 = (if type_hint f1 \<in> set (map (\<lambda>n. ''List['' @ n @ '']'') names)
                then f1\<lparr>data_type := get_data_type c (Some ''List'') False\<rparr> else f1);
          f3 = (if type_hint f2 \<in> set (map (\<lambda>n. ''Dict['' @ n @ '']'') names)
                then f2\<lparr>data_type := get_data_type c (Some ''Dict'') False\<rparr> else f2)
      in if type_hint f3 \<in> set (map (\<lambda>n. ''Optional['' @ n @ '']'') names)
         then f3\<lparr>data_type := get_data_type c None True\<rparr> else f3)"

definition clean_up_models ::
  "(DataModelField \<Rightarrow> string) \<Rightarrow> DataModelCategory \<Rightarrow> CustomDataModel list \<Rightarrow> CustomDataModel list" where
  "clean_up_models type_hint c models =
     (let targets = filter (\<lambda>m. model_category m = c) models in
      if targets \<noteq> [] then
        map (\<lambda>m. m\<lparr>model_fields := map (clean_field type_hint c (map model_name targets)) (model_fields m)\<rparr>)
          (filter (\<lambda>m. m \<notin> set targets) models)
      else models)"

definition update_classes :: "DataModelCategory \<Rightarrow> CustomDataModel list \<Rightarrow> CustomDataModel list" where
  "update_classes c models =
     (let targets = filter (\<lambda>m. model_category m = c) models in
      if targets \<noteq> [] then
        (let data_type' = get_data_type c None False;
             fields_to_remove = fields_get category_fields c @ fields_get optional_fields c
         in map (\<lambda>m. if m \<in> set targets
                      then m\<lparr>model_fields := filter (\<lambda>f. field_name f \<notin> set fields_to_remove) (model_fields m),
                             base_classes := [data_type'],
                             additional_imports := additional_imports m @ imports_of data_type'\<rparr>
                      else m) models)
      else models)"

text \<open>
  \<open>RedfishData.description\<close>: the sample's \<open>Name\<close> and \<open>Description\<close>, when they are
  true values, the two joined by the format string when both are. \<open>py_str\<close> is how the
  format string renders a value.
\<close>

fun truthy :: "json \<Rightarrow> bool" where
  "truthy JNull = False"
| "truthy (JBool b) = b"
| "truthy (JNum n) = (n \<noteq> 0)"
| "truthy (JStr s) = (s \<noteq> [])"
| "truthy (JArr xs) = (xs \<noteq> [])"
| "truthy (JObj d) = (d \<noteq> [])"

definition node_description :: "(json \<Rightarrow> string) \<Rightarrow> RedfishData \<Rightarrow> error + json option" where
  "node_description py_str rd =
     (case data rd of
        JObj d \<Rightarrow>
          (let result = (if truthy (dict_get d ''Name'') then Some (dict_get d ''Name'') else None)
           in Inr (if truthy (dict_get d ''Description'') then
                     (case result of
                        None \<Rightarrow> Some (dict_get d ''Description'')
                      | Some r \<Rightarrow> Some (JStr (py_str r @ '': '' @ py_str (dict_get d ''Description''))))
                   else result))
      | _ \<Rightarrow> Inl AttributeError)"

text \<open>The last three steps, and the pipeline \<open>_get_data_models\<close> over the parser's results.\<close>

definition update_description ::
  "(json \<Rightarrow> string) \<Rightarrow> RedfishData \<Rightarrow> CustomDataModel list \<Rightarrow> error + CustomDataModel list" where
  "update_description py_str redfish_data models =
     (case node_description py_str redfish_data of
        Inl e \<Rightarrow> Inl e
      | Inr None \<Rightarrow> Inr models
      | Inr (Some found) \<Rightarrow>
          Inr (map (\<lambda>m. if model_name m = full_name redfish_data
                         then m\<lparr>model_description := Some found\<rparr> else m) models))"

definition url_field :: "RedfishData \<Rightarrow> DataModelField" where
  "url_field redfish_data =
     \<lparr>field_name = ''_url'',
      data_type = DataType (Some ''str'') None [] False False False False None,
      default_value = Some (uri redfish_data)\<rparr>"

definition update_url :: "RedfishData \<Rightarrow> CustomDataModel list \<Rightarrow> CustomDataModel list" where
  "update_url redfish_data models =
     map (\<lambda>m. if model_name m = full_name redfish_data
               then m\<lparr>model_fields := url_field redfish_data # model_fields m\<rparr> else m) models"

definition update_root_model_name :: "RedfishData \<Rightarrow> CustomDataModel list \<Rightarrow> CustomDataModel list" where
  "update_root_model_name redfish_data models =
     map (\<lambda>m. if lower (model_name m) = lower (full_name redfish_data)
               then m\<lparr>model_name := full_name redfish_data\<rparr> else m) models"

definition get_data_models ::
  "(DataModelField \<Rightarrow> string) \<Rightarrow> (json \<Rightarrow> string) \<Rightarrow> RedfishData \<Rightarrow> RedfishData option \<Rightarrow>
   CustomDataModel list \<Rightarrow> error + CustomDataModel list" where
  "get_data_models type_hint py_str redfish_data child_data results =
     (let models = update_collection_methods redfish_data child_data results;
          models = clean_up_models type_hint LINK_MODEL models;
          models = clean_up_models type_hint ACTION_MODEL models;
          models = update_classes RESOURCE_MODEL models;
          models = update_classes COLLECTION_MODEL models
      in case update_description py_str redfish_data models of
           Inl e \<Rightarrow> Inl e
         | Inr models \<Rightarrow> Inr (update_root_model_name redfish_data (update_url redfish_data models)))"

section \<open>The index file\<close>

text \<open>
  \<open>FileProcessor._prepare_init_file\<close>, as the text it writes. \<open>join_with\<close> is
  \<open>sep.join\<close>; \<open>wrap_classes\<close> is the loop over the class names, with the text
  written so far and the current line. Tuples, strings and lists are ordered as Python
  orders them.
\<close>

fun join_with :: "string \<Rightarrow> string list \<Rightarrow> string" where
  "join_with sep [] = []"
| "join_with sep [x] = x"
| "join_with sep (x # y # ys) = x @ sep @ join_with sep (y # ys)"

fun wrap_classes :: "string list \<Rightarrow> string \<times> string \<Rightarrow> string \<times> string" where
  "wrap_classes [] (result, line) = (result, line)"
| "wrap_classes (c # cs) (result, line) =
     (if length line + length c > 120
      then wrap_classes cs (result @ line @ [CHR 0x0A], [CHR 0x09])
      else wrap_classes cs (result, line @ [CHR 0x22] @ c @ [CHR 0x22] @ '', ''))"

definition prepare_init_file :: "(string \<times> string list) list \<Rightarrow> string" where
  "prepare_init_file init_data =
     (let sorted_data = sort init_data;
          classes = concat (map snd sorted_data);
          (result, line) = wrap_classes classes (''__all__ = ['' @ [CHR 0x0A], [CHR 0x09]);
          result = (if line \<noteq> [CHR 0x09] then result @ line @ [CHR 0x0A] else result);
          result = result @ '']'' @ [CHR 0x0A, CHR 0x0A]
      in fold (\<lambda>(file, classes') r.
                 r @ ''from .'' @ file @ '' import '' @ join_with '', '' classes' @ [CHR 0x0A])
           sorted_data result)"

section \<open>Examples\<close>

text \<open>The sampler that selects the first \<open>k\<close> positions and leaves the generator as it is.\<close>

definition take_first :: "'r sampler" where
  "take_first g n k = ([0..<k], g)"

text \<open>
  A service with a root, two managers of the same type and a link that cannot be
  fetched; the nodes that a scan of it registers.
\<close>

definition demo_json :: "string \<Rightarrow> error + json" where
  "demo_json u =
     (if u = ''/a'' then
        Inr (JObj [(''@odata.type'', JStr ''#ServiceRoot.v1_0_0.ServiceRoot''),
                   (''@odata.id'', JStr ''/a''),
                   (''Managers'', JObj [(''@odata.id'', JStr ''/m1'')]),
                   (''Backup'', JObj [(''@odata.id'', JStr ''/m2'')]),
                   (''Broken'', JObj [(''@odata.id'', JStr ''/x'')])])
      else if u = ''/m1'' \<or> u = ''/m2'' then
        Inr (JObj [(''@odata.type'', JStr ''#Manager.v1_0_0.Manager''), (''@odata.id'', JStr u)])
      else Inl (TransportFailure ''404''))"

definition demo_root :: RedfishData where
  "demo_root =
     RedfishData ''ServiceRoot''
       (JObj [(''@odata.type'', JStr ''#ServiceRoot.v1_0_0.ServiceRoot''),
              (''@odata.id'', JStr ''/a''),
              (''Managers'', JObj [(''@odata.id'', JStr ''/m1'')]),
              (''Backup'', JObj [(''@odata.id'', JStr ''/m2'')]),
              (''Broken'', JObj [(''@odata.id'', JStr ''/x'')])])
       ''/a'' None"

definition demo_manager :: RedfishData where
  "demo_manager =
     RedfishData ''Manager''
       (JObj [(''@odata.type'', JStr ''#Manager.v1_0_0.Manager''), (''@odata.id'', JStr ''/m1'')])
       ''/m1'' (Some demo_root)"

text \<open>
  A service with infinitely many resources: every resource links to itself and to one
  more resource, and none carries a type tag.
\<close>

definition chain_json :: "string \<Rightarrow> error + json" where
  "chain_json u =
     Inr (JObj [(''@odata.id'', JStr u), (''Next'', JObj [(''@odata.id'', JStr (u @ ''x''))])])"



text \<open>
  A collection of three drives: the collection at \<open>/c\<close>, its members, and the nodes
  a scan registers for the collection and for its first member.
\<close>

definition drives :: json where
  "drives = JObj [(''@odata.type'', JStr ''#DriveCollection.DriveCollection''),
                  (''@odata.id'', JStr ''/c''),
                  (''Members'', JArr [JObj [(''@odata.id'', JStr ''/c/1'')],
                                      JObj [(''@odata.id'', JStr ''/c/2'')],
                                      JObj [(''@odata.id'', JStr ''/c/3'')]])]"

definition drives_json :: "string \<Rightarrow> error + json" where
  "drives_json u =
     (if u = ''/c'' then Inr drives
      else if u = ''/c/1'' \<or> u = ''/c/2'' \<or> u = ''/c/3'' then
        Inr (JObj [(''@odata.type'', JStr ''#Drive.v1_0_0.Drive''), (''@odata.id'', JStr u)])
      else Inl (TransportFailure ''404''))"

definition drives_node :: RedfishData where
  "drives_node = RedfishData ''DriveCollection'' drives ''/c'' None"

definition first_drive :: RedfishData where
  "first_drive =
     RedfishData ''Drive''
       (JObj [(''@odata.type'', JStr ''#Drive.v1_0_0.Drive''), (''@odata.id'', JStr ''/c/1'')])
       ''/c/1'' (Some drives_node)"


text \<open>The instance of the chassis scenario.\<close>

definition chassis :: json where
  "chassis = JObj [(''@odata.type'', JStr ''#Chassis.v1.Chassis''), (''@odata.id'', JStr ''/c/1''),
                   (''Name'', JStr ''Main'')]"

text \<open>
  Draft definitions as the library gives them for a service root that embeds a
  collection: a type hint is the name of the type or of the definition referred to,
  wrapped as a list, a dictionary or an optional.
\<close>

fun example_hint :: "DataType \<Rightarrow> string" where
  "example_hint (DataType t r ds opt dict lst custom imp) =
     (let inner = (case t of
                     Some n \<Rightarrow> n
                   | None \<Rightarrow> (case r of
                                Some n \<Rightarrow> n
                              | None \<Rightarrow> (case ds of [] \<Rightarrow> ''Any'' | d # _ \<Rightarrow> example_hint d)));
          wrapped = (if lst then ''List['' @ inner @ '']''
                     else if dict then ''Dict[str, '' @ inner @ '']'' else inner)
      in if opt then ''Optional['' @ wrapped @ '']'' else wrapped)"

definition example_type_hint :: "DataModelField \<Rightarrow> string" where
  "example_type_hint f = example_hint (data_type f)"

fun example_str :: "json \<Rightarrow> string" where
  "example_str (JStr s) = s"
| "example_str _ = ''''"

definition scalar :: "string \<Rightarrow> DataType" where
  "scalar t = DataType (Some t) None [] False False False False None"

definition reference_to :: "string \<Rightarrow> DataType" where
  "reference_to n = DataType None (Some n) [] False False False False None"

definition list_of :: "DataType \<Rightarrow> DataType" where
  "list_of d = DataType None None [d] False False True False None"

definition root_results :: "CustomDataModel list" where
  "root_results =
     [CustomDataModel_init ''ServiceRoot''
        [\<lparr>field_name = ''_odata_id'', data_type = scalar ''str'', default_value = None\<rparr>,
         \<lparr>field_name = ''_odata_type'', data_type = scalar ''str'', default_value = None\<rparr>,
         \<lparr>field_name = ''drives'', data_type = reference_to ''Drives'', default_value = None\<rparr>] [],
      CustomDataModel_init ''Drives''
        [\<lparr>field_name = ''_odata_id'', data_type = scalar ''str'', default_value = None\<rparr>,
         \<lparr>field_name = ''_odata_type'', data_type = scalar ''str'', default_value = None\<rparr>,
         \<lparr>field_name = ''members_odata_count'', data_type = scalar ''int'', default_value = None\<rparr>,
         \<lparr>field_name = ''members'', data_type = list_of (reference_to ''Member''), default_value = None\<rparr>,
         \<lparr>field_name = ''vendor'', data_type = reference_to ''Member'', default_value = None\<rparr>] [],
      CustomDataModel_init ''Member''
        [\<lparr>field_name = ''_odata_id'', data_type = scalar ''str'', default_value = None\<rparr>] []]"

definition root_node :: RedfishData where
  "root_node =
     RedfishData ''ServiceRoot''
       (JObj [(''@odata.id'', JStr ''/redfish/v1/''),
              (''@odata.type'', JStr ''#ServiceRoot.v1_0_0.ServiceRoot''),
              (''Drives'', JObj [(''@odata.id'', JStr ''/redfish/v1/Drives''),
                                 (''@odata.type'', JStr ''#DriveCollection.DriveCollection''),
                                 (''Members@odata.count'', JNum 1),
                                 (''Members'', JArr [JObj [(''@odata.id'', JStr ''/redfish/v1/Drives/1'')]]),
                                 (''Vendor'', JObj [(''@odata.id'', JStr ''/redfish/v1/Vendor'')])])])
       ''/redfish/v1/'' None"

definition root_models :: "CustomDataModel list" where
  "root_models =
     [\<lparr>model_name = ''ServiceRoot'',
       model_fields =
         [\<lparr>field_name = ''_url'', data_type = scalar ''str'', default_value = Some ''/redfish/v1/''\<rparr>,
          \<lparr>field_name = ''drives'', data_type = reference_to ''Drives'', default_value = None\<rparr>],
       base_classes = [get_data_type RESOURCE_MODEL None False],
       methods = [], additional_imports = [(''.common'', ''Resource'')],
       model_description = None\<rparr>,
      \<lparr>model_name = ''Drives'',
       model_fields =
         [\<lparr>field_name = ''vendor'', data_type = get_data_type LINK_MODEL None False,
           default_value = None\<rparr>],
       base_classes = [get_data_type COLLECTION_MODEL None False],
       methods = [], additional_imports = [(''.common'', ''Collection'')],
       model_description = None\<rparr>]"

text \<open>The units of a small library and the names they export.\<close>

definition library_units :: "(string \<times> string list) list" where
  "library_units =
     [(''service_root'', [''ServiceRoot'']),
      (''service_root_chassis_collection'',
         [''ServiceRootChassisCollection'', ''ChassisCollectionChassis'']),
      (''service_root_computer_system_collection'',
         [''ServiceRootComputerSystemCollection'', ''ComputerSystemCollectionComputerSystem'']),
      (''common'', [''DataManager''])]"

section \<open>Substrings\<close>

text \<open>\<open>contains p s\<close> holds exactly when \<open>p\<close> occurs in \<open>s\<close>.\<close>

lemma starts_with_iff: "starts_with p s \<longleftrightarrow> (\<exists>b. s = p @ b)"
  by (induction p s rule: starts_with.induct) auto

lemma contains_iff: "contains p s \<longleftrightarrow> (\<exists>a b. s = a @ p @ b)"
proof (induction s)
  case Nil
  then show ?case by auto
next
  case (Cons c cs)
  show ?case
  proof
    assume "contains p (c # cs)"
    then consider "starts_with p (c # cs)" | "contains p cs" by auto
    then show "\<exists>a b. c # cs = a @ p @ b"
    proof cases
      case 1
      then obtain b where "c # cs = p @ b" by (auto simp: starts_with_iff)
      then have "c # cs = [] @ p @ b" by simp
      then show ?thesis by blast
    next
      case 2
      with Cons obtain a b where "cs = a @ p @ b" by blast
      then have "c # cs = (c # a) @ p @ b" by simp
      then show ?thesis by blast
    qed
  next
    assume "\<exists>a b. c # cs = a @ p @ b"
    then obtain a b where ab: "c # cs = a @ p @ b" by blast
    show "contains p (c # cs)"
    proof (cases a)
      case Nil
      with ab have "starts_with p (c # cs)" by (auto simp: starts_with_iff)
      then show ?thesis by simp
    next
      case (Cons x xs)
      with ab have "cs = xs @ p @ b" by simp
      with Cons.IH have "contains p cs" by blast
      then show ?thesis by simp
    qed
  qed
qed

section \<open>One call of the scan\<close>

lemma scan_models_budget:
  "\<not> int (length (redfish s)) < max_models s \<Longrightarrow>
   scan_models get_json pick (Suc n) s entry_point par = Inr s"
  by simp

lemma scan_models_skip:
  "\<not> visits s u \<Longrightarrow> scan_models get_json pick (Suc n) s (JStr u) par = Inr s"
  by (auto simp: visits_def)

lemma scan_models_fetch_failed:
  "visits s u \<Longrightarrow> get_json u = Inl err \<Longrightarrow>
   scan_models get_json pick (Suc n) s (JStr u) par = Inr (add_problem (mark s u) u err)"
  by (simp add: visits_def mark_def)

lemma scan_models_name_failed:
  "visits s u \<Longrightarrow> get_json u = Inr d \<Longrightarrow> get_model_name d = Inl err \<Longrightarrow>
   scan_models get_json pick (Suc n) s (JStr u) par = Inr (add_problem (mark s u) u err)"
  by (simp add: visits_def mark_def)

lemma scan_models_visit:
  "visits s u \<Longrightarrow> get_json u = Inr d \<Longrightarrow> get_model_name d = Inr nm \<Longrightarrow>
   scan_models get_json pick (Suc n) s (JStr u) par =
     (case get_uris pick (max_collection s) d (rng s) of
        (Inl err, g) \<Rightarrow>
          Inr (add_problem (register (mark s u) (new_model par nm d u)\<lparr>rng := g\<rparr>) u err)
      | (Inr uris, g) \<Rightarrow>
          Inr (finish u
            (scan_uris (scan_models get_json pick n)
               (register (mark s u) (new_model par nm d u)\<lparr>rng := g\<rparr>) uris
               (new_model par nm d u))))"
  by (simp add: visits_def mark_def new_model_def register_def finish_def Let_def
      split: option.splits prod.splits sum.splits)

lemma scan_models_not_string:
  "int (length (redfish s)) < max_models s \<Longrightarrow> \<forall>u. entry_point \<noteq> JStr u \<Longrightarrow>
   scan_models get_json pick (Suc n) s entry_point par = Inl AttributeError"
  by (cases entry_point) simp_all

declare scan_models.simps(2) [simp del]

text \<open>A call that has room and a string as its entry point returns.\<close>

lemma scan_models_returns:
  "\<exists>s'. scan_models get_json pick (Suc n) s (JStr u) par = Inr s'"
proof (cases "visits s u")
  case False
  then show ?thesis by (simp add: scan_models_skip)
next
  case True
  show ?thesis
  proof (cases "get_json u")
    case (Inl err)
    with True show ?thesis by (simp add: scan_models_fetch_failed)
  next
    case (Inr d)
    show ?thesis
    proof (cases "get_model_name d")
      case (Inl err)
      with True Inr show ?thesis by (simp add: scan_models_name_failed)
    next
      case nm: (Inr nm)
      show ?thesis
        unfolding scan_models_visit [where get_json = get_json, OF True Inr nm]
        by (simp split: prod.splits sum.splits)
    qed
  qed
qed

lemma scan_uris_effects:
  assumes call: "\<And>s u m s'. call s u m = Inr s' \<Longrightarrow> effects get_json s s'"
  shows "scan_uris call s uris model = (s', r) \<Longrightarrow> effects get_json s s'"
proof (induction uris arbitrary: s)
  case Nil
  then show ?case by (simp add: effects.unchanged)
next
  case (Cons x uris)
  show ?case
  proof (cases "case x of JStr u \<Rightarrow> u \<notin> set (scanned_uris s) | _ \<Rightarrow> True")
    case True
    show ?thesis
    proof (cases "call s x model")
      case (Inl e)
      with True Cons.prems show ?thesis by (simp add: effects.unchanged)
    next
      case (Inr t)
      with True Cons.prems have "scan_uris call t uris model = (s', r)" by simp
      from Cons.IH [OF this] call [OF Inr] show ?thesis by (rule effects.sequence [rotated])
    qed
  next
    case False
    with Cons show ?thesis by simp
  qed
qed

lemma effects_scanned_mono:
  "effects get_json s t \<Longrightarrow> set (scanned_uris s) \<subseteq> set (scanned_uris t)"
  by (induction rule: effects.induct) (auto simp: add_problem_def)

lemma effects_register:
  assumes "visits s e" "get_json e = Inr d" "get_model_name d = Inr nm"
  shows "effects get_json s (register (mark s e) (new_model par nm d e))"
proof -
  from assms have budget: "int (length (redfish s)) < max_models s"
    and fresh: "e \<notin> set (scanned_uris s)" by (simp_all add: visits_def)
  show ?thesis
  proof (cases "\<exists>m. new_model par nm d e = Some m \<and> \<not> list_ex (\<lambda>x. eq_data x m) (redfish s)")
    case True
    then obtain m where m: "new_model par nm d e = Some m" "\<not> list_ex (\<lambda>x. eq_data x m) (redfish s)"
      by blast
    then obtain n' where n': "nm = Some n'"
      by (auto simp: new_model_def split: option.splits)
    from assms(3) m(1) have nm: "get_model_name d = Inr (Some n')"
      and built: "new_model par (Some n') d e = Some m" by (simp_all add: n')
    from effects.registered [where get_json = get_json, OF budget fresh assms(2) nm built m(2)]
    show ?thesis using m by (simp add: register_def mark_def)
  next
    case False
    then have "register (mark s e) (new_model par nm d e) = mark s e"
      by (auto simp: register_def mark_def split: option.splits)
    with effects.visited [where get_json = get_json, OF budget fresh assms(2)] show ?thesis
      by (simp add: mark_def)
  qed
qed

text \<open>
  The steps of a call that visits \<open>u\<close> and fetches \<open>d\<close>: the scanner once \<open>u\<close> is
  marked and the node registered, and the scanner the call returns.
\<close>

lemma scan_models_visit_effects:
  assumes IH: "\<And>a x m a'. scan_models get_json pick n a x m = Inr a' \<Longrightarrow> effects get_json a a'"
    and v: "visits s u" and d: "get_json u = Inr d" and nm: "get_model_name d = Inr nm"
    and run: "scan_models get_json pick (Suc n) s (JStr u) par = Inr s'"
  shows "effects get_json s (register (mark s u) (new_model par nm d u))
    \<and> effects get_json (register (mark s u) (new_model par nm d u)) s'"
proof
  define s2 where "s2 = register (mark s u) (new_model par nm d u)"
  show "effects get_json s (register (mark s u) (new_model par nm d u))"
    using v d nm by (rule effects_register)
  have marked2: "u \<in> set (scanned_uris s2)"
    by (auto simp: s2_def register_def mark_def split: option.splits)
  have later: "effects get_json s2 (add_problem t u err)"
    if "effects get_json s2 t" for t err
  proof -
    from effects_scanned_mono [OF that] marked2 have "u \<in> set (scanned_uris t)" by blast
    from effects.failed_later [where get_json = get_json, OF this d] that
    show ?thesis by (blast intro: effects.sequence)
  qed
  obtain res g where uris: "get_uris pick (max_collection s) d (rng s) = (res, g)"
    by (cases "get_uris pick (max_collection s) d (rng s)")
  have step3: "effects get_json s2 (s2\<lparr>rng := g\<rparr>)" by (rule effects.sampled)
  have "effects get_json s2 s'"
  proof (cases res)
    case (Inl e)
    with run v d nm uris have "s' = add_problem (s2\<lparr>rng := g\<rparr>) u e"
      by (simp add: scan_models_visit s2_def)
    with later [OF step3] show ?thesis by simp
  next
    case uris': (Inr uris')
    obtain s3 r where s3: "scan_uris (scan_models get_json pick n) (s2\<lparr>rng := g\<rparr>) uris'
        (new_model par nm d u) = (s3, r)"
      by (cases "scan_uris (scan_models get_json pick n) (s2\<lparr>rng := g\<rparr>) uris' (new_model par nm d u)")
    with run v d nm uris uris' have s': "s' = finish u (s3, r)"
      by (simp add: scan_models_visit s2_def)
    have "effects get_json (s2\<lparr>rng := g\<rparr>) s3"
      using _ s3 by (rule scan_uris_effects) (rule IH)
    with step3 have "effects get_json s2 s3" by (rule effects.sequence)
    with later s' show ?thesis by (cases r) (simp_all add: finish_def)
  qed
  then show "effects get_json (register (mark s u) (new_model par nm d u)) s'"
    by (simp add: s2_def)
qed

lemma scan_models_effects:
  "scan_models get_json pick n s entry_point par = Inr s' \<Longrightarrow> effects get_json s s'"
proof (induction n arbitrary: s entry_point par s')
  case 0
  then show ?case by simp
next
  case (Suc n)
  show ?case
  proof (cases "\<exists>u. entry_point = JStr u \<and> visits s u")
    case False
    have "s' = s"
    proof (cases "int (length (redfish s)) < max_models s")
      case False
      with Suc.prems show ?thesis by (simp add: scan_models_budget)
    next
      case budget: True
      show ?thesis
      proof (cases "\<exists>u. entry_point = JStr u")
        case True
        with False Suc.prems show ?thesis by (auto simp: scan_models_skip)
      next
        case False
        with budget Suc.prems show ?thesis by (simp add: scan_models_not_string)
      qed
    qed
    then show ?thesis by (simp add: effects.unchanged)
  next
    case True
    then obtain u where u: "entry_point = JStr u" and v: "visits s u" by blast
    then have budget: "int (length (redfish s)) < max_models s"
      and fresh: "u \<notin> set (scanned_uris s)" by (simp_all add: visits_def)
    show ?thesis
    proof (cases "get_json u")
      case (Inl err)
      with v u Suc.prems have "s' = add_problem (mark s u) u err"
        by (simp add: scan_models_fetch_failed)
      with effects.fetch_failed [where get_json = get_json, OF budget fresh Inl] show ?thesis
        by (simp add: mark_def)
    next
      case (Inr d)
      show ?thesis
      proof (cases "get_model_name d")
        case (Inl err)
        with v u Inr Suc.prems have "s' = add_problem (mark s u) u err"
          by (simp add: scan_models_name_failed)
        moreover have "effects get_json s (mark s u)"
          unfolding mark_def by (rule effects.visited [where get_json = get_json, OF budget fresh Inr])
        moreover have "effects get_json (mark s u) (add_problem (mark s u) u err)"
          by (rule effects.failed_later [where get_json = get_json and d = d])
            (simp_all add: mark_def Inr)
        ultimately show ?thesis by (auto intro: effects.sequence)
      next
        case nm: (Inr nm)
        from Suc.prems u have run: "scan_models get_json pick (Suc n) s (JStr u) par = Inr s'"
          by simp
        have "effects get_json s (register (mark s u) (new_model par nm d u))
            \<and> effects get_json (register (mark s u) (new_model par nm d u)) s'"
          by (rule scan_models_visit_effects [where get_json = get_json, OF _ v Inr nm run])
            (rule Suc.IH)
        then show ?thesis by (blast intro: effects.sequence)
      qed
    qed
  qed
qed

lemma scan_models_steps:
  assumes "visits s u" and "get_json u = Inr d" and "get_model_name d = Inr nm"
    and "scan_models get_json pick (Suc n) s (JStr u) par = Inr s'"
  shows "effects get_json s (register (mark s u) (new_model par nm d u))
    \<and> effects get_json (register (mark s u) (new_model par nm d u)) s'"
  by (rule scan_models_visit_effects [where get_json = get_json, OF _ assms])
    (rule scan_models_effects)

section \<open>What a scan preserves\<close>

lemma effects_config:
  "effects get_json s t \<Longrightarrow> max_models t = max_models s \<and> max_collection t = max_collection s"
  by (induction rule: effects.induct) (auto simp: add_problem_def)

lemma effects_redfish_prefix: "effects get_json s t \<Longrightarrow> prefix (redfish s) (redfish t)"
  by (induction rule: effects.induct) (auto simp: add_problem_def)

lemma effects_scanned_prefix: "effects get_json s t \<Longrightarrow> prefix (scanned_uris s) (scanned_uris t)"
  by (induction rule: effects.induct) (auto simp: add_problem_def)

lemma effects_problems_prefix: "effects get_json s t \<Longrightarrow> prefix (problems s) (problems t)"
  by (induction rule: effects.induct) (auto simp: add_problem_def)

lemma effects_size:
  "effects get_json s t \<Longrightarrow>
   int (length (redfish t)) \<le> max (max_models s) (int (length (redfish s)))"
proof (induction rule: effects.induct)
  case (sequence s t u)
  from effects_config [OF sequence(1)] have "max_models t = max_models s" by simp
  with sequence show ?case by linarith
qed (auto simp: add_problem_def)




lemma effects_failures:
  "effects get_json s t \<Longrightarrow> get_json u = Inl err \<Longrightarrow>
   filter (\<lambda>q. url q = u) (problems t) =
     filter (\<lambda>q. url q = u) (problems s) @
     (if u \<in> set (scanned_uris t) \<and> u \<notin> set (scanned_uris s)
      then [\<lparr>url = u, description = str_error err\<rparr>] else [])"
proof (induction rule: effects.induct)
  case (sequence s t v)
  then show ?case
    using effects_scanned_mono [OF sequence(1)] effects_scanned_mono [OF sequence(2)] by auto
qed (auto simp: add_problem_def)

lemma effects_grown:
  "effects get_json s t \<Longrightarrow>
   redfish t = redfish s \<or> int (length (redfish t)) \<le> max_models s"
proof (induction rule: effects.induct)
  case (sequence s t u)
  from effects_config [OF sequence(1)] have "max_models t = max_models s" by simp
  with sequence show ?case by auto
qed (auto simp: add_problem_def)

lemma effects_budget_used:
  assumes "effects get_json s t" and "\<not> budget_left s"
  shows "\<not> budget_left t"
proof -
  from effects_redfish_prefix [OF assms(1)] have "length (redfish s) \<le> length (redfish t)"
    by (rule prefix_length_le)
  with effects_config [OF assms(1)] assms(2) show ?thesis by (simp add: budget_left_def)
qed

section \<open>The URIs a scan reaches\<close>

text \<open>
  A call that returns has marked its entry point, unless the budget is used up or the
  entry point is excluded.
\<close>

lemma scan_models_reaches:
  assumes "scan_models get_json pick n s (JStr u) par = Inr t"
  shows "u \<in> set (scanned_uris t) \<or> \<not> budget_left t \<or> excluded u"
proof (cases n)
  case 0
  with assms show ?thesis by simp
next
  case (Suc k)
  show ?thesis
  proof (cases "visits s u")
    case False
    with assms Suc have "t = s" by (simp add: scan_models_skip)
    with False show ?thesis by (auto simp: visits_def budget_left_def excluded_def)
  next
    case True
    have "u \<in> set (scanned_uris t)"
    proof (cases "get_json u")
      case (Inl err)
      with True assms Suc show ?thesis
        by (auto simp: scan_models_fetch_failed add_problem_def mark_def)
    next
      case (Inr d)
      show ?thesis
      proof (cases "get_model_name d")
        case (Inl err)
        with True Inr assms Suc show ?thesis
          by (auto simp: scan_models_name_failed add_problem_def mark_def)
      next
        case nm: (Inr nm)
        from assms Suc have run: "scan_models get_json pick (Suc k) s (JStr u) par = Inr t" by simp
        from scan_models_steps [where get_json = get_json, OF True Inr nm run]
        have "effects get_json (register (mark s u) (new_model par nm d u)) t" by simp
        from effects_scanned_mono [OF this] show ?thesis
          by (auto simp: register_def mark_def split: option.splits if_splits)
      qed
    qed
    then show ?thesis by simp
  qed
qed

text \<open>
  A loop that no exception leaves has reached every string it went over; with room for
  the calls it makes, only a value that is not a string makes an exception leave it.
\<close>

lemma scan_uris_explores:
  "scan_uris (scan_models get_json pick n) s uris model = (s', None) \<Longrightarrow> JStr x \<in> set uris \<Longrightarrow>
   x \<in> set (scanned_uris s') \<or> \<not> budget_left s' \<or> excluded x"
proof (induction uris arbitrary: s)
  case Nil
  then show ?case by simp
next
  case (Cons y uris)
  have rest: "effects get_json t s'"
    if "scan_uris (scan_models get_json pick n) t uris model = (s', None)" for t
    using _ that by (rule scan_uris_effects) (rule scan_models_effects)
  show ?case
  proof (cases "case y of JStr u \<Rightarrow> u \<notin> set (scanned_uris s) | _ \<Rightarrow> True")
    case True
    with Cons.prems(1) obtain t where t: "scan_models get_json pick n s y model = Inr t"
      and r: "scan_uris (scan_models get_json pick n) t uris model = (s', None)"
      by (auto split: sum.splits)
    show ?thesis
    proof (cases "y = JStr x")
      case True
      with t have "x \<in> set (scanned_uris t) \<or> \<not> budget_left t \<or> excluded x"
        using scan_models_reaches [of get_json pick n s x model t] by simp
      with effects_scanned_mono [OF rest [OF r]] effects_budget_used [OF rest [OF r]]
      show ?thesis by blast
    next
      case False
      with Cons.prems(2) have "JStr x \<in> set uris" by simp
      with Cons.IH [OF r] show ?thesis by simp
    qed
  next
    case False
    with Cons.prems(1) have r: "scan_uris (scan_models get_json pick n) s uris model = (s', None)"
      by simp
    show ?thesis
    proof (cases "y = JStr x")
      case True
      with False have "x \<in> set (scanned_uris s)" by simp
      with effects_scanned_mono [OF rest [OF r]] show ?thesis by blast
    next
      case False
      with Cons.prems(2) have "JStr x \<in> set uris" by simp
      with Cons.IH [OF r] show ?thesis by simp
    qed
  qed
qed

lemma scan_uris_raises:
  "scan_uris (scan_models get_json pick (Suc n)) s uris model = (s', Some e) \<Longrightarrow>
   e = AttributeError \<and> (\<exists>y \<in> set uris. \<forall>u. y \<noteq> JStr u)"
proof (induction uris arbitrary: s)
  case Nil
  then show ?case by simp
next
  case (Cons y uris)
  show ?case
  proof (cases "case y of JStr u \<Rightarrow> u \<notin> set (scanned_uris s) | _ \<Rightarrow> True")
    case True
    show ?thesis
    proof (cases "scan_models get_json pick (Suc n) s y model")
      case (Inl err)
      with True Cons.prems have e: "e = err" by simp
      have "\<forall>u. y \<noteq> JStr u"
      proof (intro allI notI)
        fix u assume "y = JStr u"
        with Inl scan_models_returns [of get_json pick n s u model] show False by simp
      qed
      moreover from this Inl have "err = AttributeError"
        by (cases "int (length (redfish s)) < max_models s")
          (simp_all add: scan_models_not_string scan_models_budget)
      ultimately show ?thesis using e by auto
    next
      case (Inr t)
      with True Cons.prems
      have "scan_uris (scan_models get_json pick (Suc n)) t uris model = (s', Some e)" by simp
      from Cons.IH [OF this] show ?thesis by simp
    qed
  next
    case False
    with Cons.prems
    have "scan_uris (scan_models get_json pick (Suc n)) s uris model = (s', Some e)" by simp
    from Cons.IH [OF this] show ?thesis by simp
  qed
qed

text \<open>
  A call that visits \<open>u\<close> and has room for the calls it makes reaches every string
  among the URIs extracted from what it fetched, unless the budget is used up, the
  string is excluded, or a value that is not a string is among the URIs.
\<close>

lemma scan_models_explores:
  assumes v: "visits s u" and d: "get_json u = Inr d" and nm: "get_model_name d = Inr nm"
    and uris: "get_uris pick (max_collection s) d (rng s) = (Inr uris, g)"
    and run: "scan_models get_json pick (Suc (Suc n)) s (JStr u) par = Inr s'"
    and x: "JStr x \<in> set uris"
  shows "x \<in> set (scanned_uris s') \<or> \<not> budget_left s' \<or> excluded x
    \<or> (\<exists>y \<in> set uris. \<forall>w. y \<noteq> JStr w)"
proof -
  define s2 where "s2 = register (mark s u) (new_model par nm d u)\<lparr>rng := g\<rparr>"
  obtain s3 r where s3: "scan_uris (scan_models get_json pick (Suc n)) s2 uris (new_model par nm d u) = (s3, r)"
    by (cases "scan_uris (scan_models get_json pick (Suc n)) s2 uris (new_model par nm d u)")
  with run have s': "s' = finish u (s3, r)"
    unfolding scan_models_visit [where get_json = get_json, OF v d nm] uris
    by (simp add: s2_def)
  show ?thesis
  proof (cases r)
    case None
    with s' have "s' = s3" by (simp add: finish_def)
    with scan_uris_explores [OF s3 [unfolded None] x] show ?thesis by blast
  next
    case (Some e)
    with scan_uris_raises [OF s3 [unfolded Some]] show ?thesis by blast
  qed
qed

section \<open>The URIs of the entries of \<open>Members\<close>\<close>

lemma get_uris_entries_followed:
  "get_uris_entries pick W es result g = append_followed result (followed_entries pick W es g)"
  by (induction es arbitrary: result g)
    (simp_all add: append_followed_def split: prod.splits sum.splits)

lemma followed_entries_length:
  "followed_entries pick W es g = (Inr uss, g') \<Longrightarrow> length uss = length es"
  by (induction es arbitrary: uss g) (auto split: prod.splits sum.splits)

lemma followed_entries_links:
  "followed_entries pick W (map (\<lambda>u. JObj [(''@odata.id'', JStr u)]) us) g =
     (Inr (map (\<lambda>u. [JStr u]) us), g)"
  by (induction us) simp_all

lemma members_all:
  "int (length ms) \<le> W \<Longrightarrow>
   get_uris_items pick W ((''Members'', JArr ms) # rest) result g =
     items_after pick W rest (append_followed result (followed_entries pick W ms g))"
  by (simp add: items_after_def get_uris_entries_followed split: prod.splits sum.splits)

lemma members_sampled:
  assumes "0 \<le> W" "W < int (length ms)" "pick g (length ms) (nat W) = (idxs, g1)"
    "\<forall>i \<in> set idxs. i < length ms"
  shows "get_uris_items pick W ((''Members'', JArr ms) # rest) result g =
     items_after pick W rest
       (append_followed result (followed_entries pick W (map ((!) ms) idxs) g1))"
proof -
  from assms(4) have "filter (\<lambda>i. i < length ms) idxs = idxs" by (simp add: filter_id_conv)
  with assms(1-3) have "random_sample pick g ms W = (Inr (map ((!) ms) idxs), g1)"
    by (simp add: random_sample_def)
  with assms(2) show ?thesis
    by (simp add: items_after_def get_uris_entries_followed split: prod.splits sum.splits)
qed

lemma members_refused:
  assumes "W < 0"
  shows "get_uris_items pick W ((''Members'', JArr ms) # rest) result g = (Inl ValueError, g)"
  using assms by (simp add: random_sample_def)

text \<open>The loops of \<open>_get_uris\<close> only append to the list built so far.\<close>

lemma get_uris_prefix:
  "get_uris pick W d g = (Inr uris, g') \<Longrightarrow> prefix [] uris"
  "get_uris_items pick W items result g = (Inr uris, g') \<Longrightarrow> prefix result uris"
  "get_uris_entries pick W es result g = (Inr uris, g') \<Longrightarrow> prefix result uris"
proof (induction pick W d g and pick W items result g and pick W es result g
    arbitrary: uris g' and uris g' and uris g'
    rule: get_uris_get_uris_items_get_uris_entries.induct)
  case (4 pick W key v rest result g)
  define result1 where
    "result1 = (if key = ''@odata.id'' \<and> v \<notin> set result then result @ [v] else result)"
  define members where "members =
    (if key = ''Members'' then
       (case py_len v of
          Inl e \<Rightarrow> (Inl e, g)
        | Inr n \<Rightarrow>
            if W < int n then
              (if isinstance_dict v then (Inl TypeError, g)
               else (case random_sample pick g (py_iter v) W of
                       (Inl e, g1) \<Rightarrow> (Inl e, g1)
                     | (Inr entries, g1) \<Rightarrow> get_uris_entries pick W entries result1 g1))
            else get_uris_entries pick W (py_iter v) result1 g)
     else (Inr result1, g))"
  have eq: "(case members of
        (Inl e, g2) \<Rightarrow> (Inl e, g2)
      | (Inr result2, g2) \<Rightarrow>
          (case (if isinstance_dict v then
                   (case get_uris pick W v g2 of
                      (Inl e, g3) \<Rightarrow> (Inl e, g3)
                    | (Inr uris, g3) \<Rightarrow> (Inr (result2 @ uris), g3))
                 else (Inr result2, g2)) of
             (Inl e, g4) \<Rightarrow> (Inl e, g4)
           | (Inr result3, g4) \<Rightarrow> get_uris_items pick W rest result3 g4)) = (Inr uris, g')"
    using "4.prems"
    unfolding get_uris_items.simps Let_def result1_def [symmetric] members_def [symmetric] .
  obtain r2 g2 where m0: "members = (r2, g2)" by (cases members)
  with eq obtain result2 where r2: "r2 = Inr result2" by (cases r2) auto
  define nested where "nested =
    (if isinstance_dict v then
       (case get_uris pick W v g2 of
          (Inl e, g3) \<Rightarrow> (Inl e, g3)
        | (Inr uris, g3) \<Rightarrow> (Inr (result2 @ uris), g3))
     else (Inr result2, g2))"
  obtain r3 g4 where n0: "nested = (r3, g4)" by (cases nested)
  from eq m0 r2 have eq': "(case nested of
        (Inl e, g4) \<Rightarrow> (Inl e, g4)
      | (Inr result3, g4) \<Rightarrow> get_uris_items pick W rest result3 g4) = (Inr uris, g')"
    by (simp add: nested_def)
  with n0 obtain result3 where r3: "r3 = Inr result3"
    and rest: "get_uris_items pick W rest result3 g4 = (Inr uris, g')"
    by (cases r3) auto
  have p1: "prefix result result1" by (simp add: result1_def)
  have p2: "prefix result1 result2"
  proof (cases "key = ''Members''")
    case False
    with m0 r2 show ?thesis by (simp add: members_def)
  next
    case True
    with m0 r2 obtain n where n: "py_len v = Inr n"
      by (cases "py_len v") (auto simp: members_def)
    show ?thesis
    proof (cases "W < int n")
      case False
      with True n m0 r2 have "get_uris_entries pick W (py_iter v) result1 g = (Inr result2, g2)"
        by (simp add: members_def)
      with "4.IH"(2) [OF result1_def True n False] show ?thesis by simp
    next
      case less: True
      with True n m0 r2 have nd: "\<not> isinstance_dict v" by (auto simp: members_def)
      with True n m0 r2 less obtain entries g1 where
        s: "random_sample pick g (py_iter v) W = (Inr entries, g1)"
        and e: "get_uris_entries pick W entries result1 g1 = (Inr result2, g2)"
        by (auto simp: members_def split: prod.splits sum.splits)
      from "4.IH"(1) [OF result1_def True n less nd s [symmetric] refl e] show ?thesis .
    qed
  qed
  have p3: "prefix result2 result3"
    using n0 r3 by (auto simp: nested_def split: if_splits prod.splits sum.splits)
  have p4: "prefix result3 uris"
    by (rule "4.IH"(4) [OF result1_def m0 [unfolded r2 members_def, symmetric] refl
          n0 [unfolded r3 nested_def, symmetric] refl rest])
  from p1 p2 p3 p4 show ?case by (blast intro: prefix_order.trans)
next
  case (6 pick W entry entries result g)
  then show ?case
    by (auto split: prod.splits sum.splits dest: append_prefixD)
qed simp_all

lemma get_uris_items_prefix:
  "get_uris_items pick W items result g = (Inr uris, g') \<Longrightarrow> prefix result uris"
  by (rule get_uris_prefix(2))

section \<open>Facts about the examples\<close>

lemma sampler_ok_take_first: "sampler_ok take_first"
  by (simp add: sampler_ok_def take_first_def)

lemma demo_scan:
  "scan_models demo_json take_first 2 (Scanner_init 10 50 ()) (JStr ''/a'') None =
     Inr \<lparr>max_models = 10, max_collection = 50, redfish = [demo_root, demo_manager],
           scanned_uris = [''/a'', ''/m1'', ''/m2'', ''/x''],
           problems = [\<lparr>url = ''/x'', description = ''404''\<rparr>], rng = ()\<rparr>"
  by code_simp

section \<open>The stages of the parser\<close>

lemma names_are_present_iff: "names_are_present field_names names \<longleftrightarrow> set names \<subseteq> set field_names"
  by (induction names) auto

lemma fold_last_match:
  "fold (\<lambda>(cat, names) c. if P names then cat else c) table d =
     (case filter (\<lambda>(cat, names). P names) table of [] \<Rightarrow> d | ms \<Rightarrow> fst (last ms))"
proof (induction table arbitrary: d)
  case Nil
  then show ?case by simp
next
  case (Cons x table)
  then show ?case by (cases x) (auto split: list.splits)
qed

lemma model_category_names:
  "map field_name (model_fields m') = map field_name (model_fields m) \<Longrightarrow>
   model_category m' = model_category m"
  by (simp add: model_category_def fields_are_present_def)

lemma clean_field_shape:
  "field_name (clean_field type_hint c names f) = field_name f
   \<and> default_value (clean_field type_hint c names f) = default_value f
   \<and> (data_type (clean_field type_hint c names f) = data_type f
      \<or> (\<exists>coll opt. data_type (clean_field type_hint c names f) = get_data_type c coll opt))"
  by (auto simp: clean_field_def Let_def)

lemma clean_field_names:
  "map field_name (map (clean_field type_hint c names) fs) = map field_name fs"
  by (simp add: clean_field_shape)

text \<open>A definition of another category goes through a stage with its name, field names and bases.\<close>

lemma update_collection_methods_keeps:
  "m \<in> set ms \<Longrightarrow>
   \<exists>m' \<in> set (update_collection_methods rd cd ms).
     model_name m' = model_name m \<and> model_fields m' = model_fields m \<and>
     base_classes m' = base_classes m"
  by (force simp: update_collection_methods_def split: option.splits)

lemma clean_up_models_keeps:
  assumes "m \<in> set ms" and "model_category m \<noteq> c"
  shows "\<exists>m' \<in> set (clean_up_models type_hint c ms).
     model_name m' = model_name m \<and>
     map field_name (model_fields m') = map field_name (model_fields m) \<and>
     base_classes m' = base_classes m"
proof (cases "filter (\<lambda>m. model_category m = c) ms = []")
  case True
  with assms show ?thesis by (auto simp: clean_up_models_def)
next
  case False
  let ?names = "map model_name (filter (\<lambda>m. model_category m = c) ms)"
  let ?m' = "m\<lparr>model_fields := map (clean_field type_hint c ?names) (model_fields m)\<rparr>"
  from assms False have "?m' \<in> set (clean_up_models type_hint c ms)"
    by (auto simp: clean_up_models_def Let_def)
  moreover have "map field_name (model_fields ?m') = map field_name (model_fields m)"
    by (simp add: clean_field_shape)
  ultimately show ?thesis by (intro bexI [of _ ?m']) simp_all
qed

lemma update_classes_keeps:
  "m \<in> set ms \<Longrightarrow> model_category m \<noteq> c \<Longrightarrow> m \<in> set (update_classes c ms)"
  by (force simp: update_classes_def Let_def)

lemma update_classes_collapses:
  assumes "m \<in> set ms" and "model_category m = c"
  shows "\<exists>m' \<in> set (update_classes c ms).
     model_name m' = model_name m \<and>
     map field_name (model_fields m') =
       filter (\<lambda>n. n \<notin> set (fields_get category_fields c @ fields_get optional_fields c))
         (map field_name (model_fields m)) \<and>
     base_classes m' = [get_data_type c None False]"
proof -
  let ?remove = "fields_get category_fields c @ fields_get optional_fields c"
  let ?m' = "m\<lparr>model_fields := filter (\<lambda>f. field_name f \<notin> set ?remove) (model_fields m),
      base_classes := [get_data_type c None False],
      additional_imports := additional_imports m @ imports_of (get_data_type c None False)\<rparr>"
  from assms have "filter (\<lambda>m. model_category m = c) ms \<noteq> []"
    by (auto simp: filter_empty_conv)
  with assms have "?m' \<in> set (update_classes c ms)"
    by (force simp: update_classes_def Let_def)
  moreover have "map field_name (model_fields ?m') = filter (\<lambda>n. n \<notin> set ?remove) (map field_name (model_fields m))"
    by (simp add: filter_map comp_def)
  ultimately show ?thesis by (intro bexI [of _ ?m']) simp_all
qed

lemma mapped_member: "m \<in> set ms \<Longrightarrow> P (f m) \<Longrightarrow> \<exists>m' \<in> set (map f ms). P m'"
  by auto

lemma update_description_keeps:
  assumes "update_description py_str rd ms = Inr out" and "m \<in> set ms"
  shows "\<exists>m' \<in> set out. model_name m' = model_name m \<and> model_fields m' = model_fields m \<and>
     base_classes m' = base_classes m"
proof (cases "node_description py_str rd")
  case (Inl e)
  with assms show ?thesis by (simp add: update_description_def)
next
  case (Inr found)
  show ?thesis
  proof (cases found)
    case None
    with Inr assms show ?thesis by (auto simp: update_description_def)
  next
    case (Some t)
    with Inr assms(1) have out: "out = map (\<lambda>m. if model_name m = full_name rd
        then m\<lparr>model_description := Some t\<rparr> else m) ms"
      by (simp add: update_description_def)
    show ?thesis unfolding out by (rule mapped_member [OF assms(2)]) simp
  qed
qed

lemma update_url_keeps:
  "m \<in> set ms \<Longrightarrow>
   \<exists>m' \<in> set (update_url rd ms). model_name m' = model_name m \<and>
     model_fields m' = (if model_name m = full_name rd then [url_field rd] else []) @ model_fields m \<and>
     base_classes m' = base_classes m"
  unfolding update_url_def by (erule mapped_member) simp

lemma update_root_model_name_keeps:
  "m \<in> set ms \<Longrightarrow>
   \<exists>m' \<in> set (update_root_model_name rd ms). model_fields m' = model_fields m \<and>
     base_classes m' = base_classes m \<and>
     model_name m' =
       (if lower (model_name m) = lower (full_name rd) then full_name rd else model_name m)"
  unfolding update_root_model_name_def by (erule mapped_member) simp

text \<open>Where the fields of a definition come from, stage by stage.\<close>

lemma update_collection_methods_fields:
  "m' \<in> set (update_collection_methods rd cd ms) \<Longrightarrow> \<exists>m \<in> set ms. model_fields m' = model_fields m"
  by (auto simp: update_collection_methods_def split: option.splits if_splits)

lemma clean_up_models_fields:
  "m' \<in> set (clean_up_models type_hint c ms) \<Longrightarrow>
   \<exists>m \<in> set ms. model_fields m' = model_fields m
     \<or> (\<exists>names. model_fields m' = map (clean_field type_hint c names) (model_fields m))"
  by (fastforce simp: clean_up_models_def Let_def split: if_splits)

lemma update_classes_fields:
  "m' \<in> set (update_classes c ms) \<Longrightarrow> \<exists>m \<in> set ms. set (model_fields m') \<subseteq> set (model_fields m)"
  by (auto simp: update_classes_def Let_def split: if_splits)

lemma update_description_fields:
  "update_description py_str rd ms = Inr out \<Longrightarrow> m' \<in> set out \<Longrightarrow>
   \<exists>m \<in> set ms. model_fields m' = model_fields m"
  by (fastforce simp: update_description_def split: sum.splits option.splits if_splits)

lemma update_url_fields:
  "m' \<in> set (update_url rd ms) \<Longrightarrow>
   \<exists>m \<in> set ms. set (model_fields m') \<subseteq> insert (url_field rd) (set (model_fields m))"
  by (auto simp: update_url_def split: if_splits)

lemma update_root_model_name_fields:
  "m' \<in> set (update_root_model_name rd ms) \<Longrightarrow> \<exists>m \<in> set ms. model_fields m' = model_fields m"
  by (auto simp: update_root_model_name_def split: if_splits)

lemma get_data_models_fields:
  assumes "get_data_models type_hint py_str rd cd results = Inr out"
    and "m' \<in> set out" and "f' \<in> set (model_fields m')"
  shows "f' = url_field rd \<or>
      (\<exists>m0 \<in> set results. \<exists>f \<in> set (model_fields m0).
         field_name f' = field_name f \<and> default_value f' = default_value f \<and>
         (data_type f' = data_type f
          \<or> (\<exists>coll opt. data_type f' = get_data_type LINK_MODEL coll opt)
          \<or> (\<exists>coll opt. data_type f' = get_data_type ACTION_MODEL coll opt)))"
proof -
  define ok where "ok f' \<longleftrightarrow>
      (\<exists>m0 \<in> set results. \<exists>f \<in> set (model_fields m0).
         field_name f' = field_name f \<and> default_value f' = default_value f \<and>
         (data_type f' = data_type f
          \<or> (\<exists>coll opt. data_type f' = get_data_type LINK_MODEL coll opt)
          \<or> (\<exists>coll opt. data_type f' = get_data_type ACTION_MODEL coll opt)))"
    for f' :: DataModelField
  define all_ok where "all_ok ms \<longleftrightarrow> (\<forall>m \<in> set ms. \<forall>f \<in> set (model_fields m). ok f)"
    for ms :: "CustomDataModel list"
  have cleaned: "ok (clean_field type_hint c names f)"
    if "ok f" "c = LINK_MODEL \<or> c = ACTION_MODEL" for c names f
  proof -
    from that(1) obtain m0 f0 where f0: "m0 \<in> set results" "f0 \<in> set (model_fields m0)"
      "field_name f = field_name f0" "default_value f = default_value f0"
      and "data_type f = data_type f0
          \<or> (\<exists>coll opt. data_type f = get_data_type LINK_MODEL coll opt)
          \<or> (\<exists>coll opt. data_type f = get_data_type ACTION_MODEL coll opt)"
      unfolding ok_def by blast
    with clean_field_shape [of type_hint c names f] that(2)
    have d: "data_type (clean_field type_hint c names f) = data_type f0
          \<or> (\<exists>coll opt. data_type (clean_field type_hint c names f) = get_data_type LINK_MODEL coll opt)
          \<or> (\<exists>coll opt. data_type (clean_field type_hint c names f) = get_data_type ACTION_MODEL coll opt)"
      by metis
    have n: "field_name (clean_field type_hint c names f) = field_name f0"
      "default_value (clean_field type_hint c names f) = default_value f0"
      using f0 clean_field_shape [of type_hint c names f] by simp_all
    show ?thesis
      unfolding ok_def using f0(1,2) n d by blast
  qed
  have clean: "all_ok (clean_up_models type_hint c ms)"
    if "all_ok ms" "c = LINK_MODEL \<or> c = ACTION_MODEL" for c ms
    unfolding all_ok_def
  proof (intro ballI)
    fix m f assume m: "m \<in> set (clean_up_models type_hint c ms)" and f: "f \<in> set (model_fields m)"
    from clean_up_models_fields [OF m] obtain m0 where m0: "m0 \<in> set ms"
      and disj: "model_fields m = model_fields m0
        \<or> (\<exists>names. model_fields m = map (clean_field type_hint c names) (model_fields m0))"
      by blast
    from disj show "ok f"
    proof
      assume "model_fields m = model_fields m0"
      with that(1) m0 f show ?thesis by (auto simp: all_ok_def)
    next
      assume "\<exists>names. model_fields m = map (clean_field type_hint c names) (model_fields m0)"
      then obtain names f0 where "f0 \<in> set (model_fields m0)" "f = clean_field type_hint c names f0"
        using f by auto
      with that m0 cleaned show ?thesis by (auto simp: all_ok_def)
    qed
  qed
  have collapse: "all_ok (update_classes c ms)" if "all_ok ms" for c ms
    using that update_classes_fields [of _ c ms] unfolding all_ok_def by blast
  define s1 where "s1 = update_collection_methods rd cd results"
  define s2 where "s2 = clean_up_models type_hint LINK_MODEL s1"
  define s3 where "s3 = clean_up_models type_hint ACTION_MODEL s2"
  define s4 where "s4 = update_classes RESOURCE_MODEL s3"
  define s5 where "s5 = update_classes COLLECTION_MODEL s4"
  from assms(1) obtain s6 where s6: "update_description py_str rd s5 = Inr s6"
    and out: "out = update_root_model_name rd (update_url rd s6)"
    by (auto simp: get_data_models_def Let_def s1_def s2_def s3_def s4_def s5_def split: sum.splits)
  have "all_ok results" unfolding all_ok_def ok_def by blast
  then have "all_ok s1"
    using update_collection_methods_fields [of _ rd cd results] unfolding all_ok_def s1_def by metis
  then have "all_ok s2" unfolding s2_def by (intro clean) simp_all
  then have "all_ok s3" unfolding s3_def by (intro clean) simp_all
  then have "all_ok s4" unfolding s4_def by (rule collapse)
  then have "all_ok s5" unfolding s5_def by (rule collapse)
  then have ok6: "all_ok s6"
    using update_description_fields [OF s6] unfolding all_ok_def by metis
  from assms(2) out obtain m7 where m7: "m7 \<in> set (update_url rd s6)"
    and "model_fields m' = model_fields m7"
    using update_root_model_name_fields by blast
  with assms(3) have "f' \<in> set (model_fields m7)" by simp
  with update_url_fields [OF m7] obtain m6 where "m6 \<in> set s6"
    and "f' = url_field rd \<or> f' \<in> set (model_fields m6)"
    by blast
  with ok6 have "f' = url_field rd \<or> ok f'" unfolding all_ok_def by blast
  then show ?thesis unfolding ok_def .
qed

lemma root_run:
  "get_data_models example_type_hint example_str root_node None root_results = Inr root_models"
  by code_simp

section \<open>Termination and the node budget\<close>

text \<open>
  Claim C1, as the code has it. A call of \<open>scan_models\<close> on a string, from any state
  of the scanner, with any parent and whatever the service answers, returns a scanner
  and raises nothing: on a service with infinitely many resources the descent ends at
  the interpreter's recursion limit, where \<open>RecursionError\<close> is caught and recorded as
  a problem. Nodes have only been appended to the discovered collection, and every node
  was appended to fewer than \<open>max_models\<close> nodes; so the collection has at most
  \<open>max_models\<close> nodes, or as many as it had at the start: a scan with a new scanner
  and the budget \<open>N\<close> ends with at most \<open>N\<close> nodes when \<open>N\<close> is not negative, and
  with none otherwise. A call that finds the budget used up returns at once and leaves
  the scanner as it is, whatever its entry point: it records no problem and raises
  nothing.
\<close>

theorem scan_returns_within_budget:
  "(\<exists>s'. scan_models get_json pick (Suc n) s (JStr entry) par = Inr s'
      \<and> prefix (redfish s) (redfish s')
      \<and> (\<forall>i. length (redfish s) \<le> i \<and> i < length (redfish s') \<longrightarrow> int i < max_models s)
      \<and> int (length (redfish s')) \<le> max (max_models s) (int (length (redfish s))))
   \<and> (\<exists>s'. scan_models get_json pick (Suc n) (Scanner_init N W g) (JStr entry) None = Inr s'
      \<and> int (length (redfish s')) \<le> max N 0)
   \<and> (\<not> int (length (redfish s)) < max_models s \<longrightarrow>
        scan_models get_json pick (Suc n) s entry_point par = Inr s)"
proof (intro conjI impI)
  obtain s' where run: "scan_models get_json pick (Suc n) s (JStr entry) par = Inr s'"
    using scan_models_returns by blast
  then have eff: "effects get_json s s'" by (rule scan_models_effects)
  have "int i < max_models s" if "length (redfish s) \<le> i \<and> i < length (redfish s')" for i
    using effects_grown [OF eff] that by auto
  with run effects_redfish_prefix [OF eff] effects_size [OF eff]
  show "\<exists>s'. scan_models get_json pick (Suc n) s (JStr entry) par = Inr s'
      \<and> prefix (redfish s) (redfish s')
      \<and> (\<forall>i. length (redfish s) \<le> i \<and> i < length (redfish s') \<longrightarrow> int i < max_models s)
      \<and> int (length (redfish s')) \<le> max (max_models s) (int (length (redfish s)))"
    by blast
next
  obtain s' where run: "scan_models get_json pick (Suc n) (Scanner_init N W g) (JStr entry) None = Inr s'"
    using scan_models_returns by blast
  from effects_size [OF scan_models_effects [OF run]]
  have "int (length (redfish s')) \<le> max N 0" by (simp add: Scanner_init_def)
  with run
  show "\<exists>s'. scan_models get_json pick (Suc n) (Scanner_init N W g) (JStr entry) None = Inr s'
      \<and> int (length (redfish s')) \<le> max N 0"
    by blast
next
  assume "\<not> int (length (redfish s)) < max_models s"
  then show "scan_models get_json pick (Suc n) s entry_point par = Inr s"
    by (rule scan_models_budget)
qed

text \<open>
  In the example service, a scanner with the budget of one node that holds the root: the
  call for the first manager returns at once. On the service with infinitely many
  resources, a scan with room for three nested calls returns with one problem.
\<close>

theorem scan_returns_within_budget_witness:
  "\<not> int (length (redfish \<lparr>max_models = 1, max_collection = 50, redfish = [demo_root],
        scanned_uris = [''/a''], problems = [], rng = ()\<rparr>))
      < max_models \<lparr>max_models = 1, max_collection = 50, redfish = [demo_root],
        scanned_uris = [''/a''], problems = [], rng = ()\<rparr>
   \<and> scan_models demo_json take_first 1
        \<lparr>max_models = 1, max_collection = 50, redfish = [demo_root],
         scanned_uris = [''/a''], problems = [], rng = ()\<rparr> (JStr ''/m1'') (Some demo_root) =
      Inr \<lparr>max_models = 1, max_collection = 50, redfish = [demo_root],
           scanned_uris = [''/a''], problems = [], rng = ()\<rparr>
   \<and> scan_models demo_json take_first 2 (Scanner_init 1 50 ()) (JStr ''/a'') None =
      Inr \<lparr>max_models = 1, max_collection = 50, redfish = [demo_root],
           scanned_uris = [''/a''], problems = [], rng = ()\<rparr>
   \<and> scan_models chain_json take_first 3 (Scanner_init 500 50 ()) (JStr ''/'') None =
      Inr \<lparr>max_models = 500, max_collection = 50, redfish = [],
           scanned_uris = [''/'', ''/x'', ''/xx''],
           problems = [\<lparr>url = ''/xx'', description = ''RecursionError''\<rparr>], rng = ()\<rparr>"
proof -
  have root: "scan_models demo_json take_first 2 (Scanner_init 1 50 ()) (JStr ''/a'') None =
      Inr \<lparr>max_models = 1, max_collection = 50, redfish = [demo_root],
           scanned_uris = [''/a''], problems = [], rng = ()\<rparr>"
    by code_simp
  have chain: "scan_models chain_json take_first 3 (Scanner_init 500 50 ()) (JStr ''/'') None =
      Inr \<lparr>max_models = 500, max_collection = 50, redfish = [],
           scanned_uris = [''/'', ''/x'', ''/xx''],
           problems = [\<lparr>url = ''/xx'', description = ''RecursionError''\<rparr>], rng = ()\<rparr>"
    by code_simp
  from scan_returns_within_budget [where get_json = demo_json and pick = take_first and n = 0
      and s = "\<lparr>max_models = 1, max_collection = 50, redfish = [demo_root],
        scanned_uris = [''/a''], problems = [], rng = ()\<rparr>"
      and entry_point = "JStr ''/m1''" and par = "Some demo_root"]
  show ?thesis using root chain by simp
qed

text \<open>
  Claim C1 as stated fails for a negative budget: the scan returns at once, and the
  empty collection has more than \<open>N\<close> nodes.
\<close>

theorem negative_budget_counterexample:
  "scan_models demo_json take_first 2 (Scanner_init (- 1) 50 ()) (JStr ''/a'') None =
     Inr \<lparr>max_models = - 1, max_collection = 50, redfish = [],
          scanned_uris = [], problems = [], rng = ()\<rparr>
   \<and> - 1 < int (length ([] :: RedfishData list))"
  by code_simp

section \<open>One node for each full name\<close>



section \<open>The category of a scanned node\<close>

text \<open>
  Claim C3, as the code has it. \<open>RedfishData.category\<close> is total and takes three of
  the four kinds: a node whose name contains \<open>collection\<close>, whatever the case of its
  letters, is a Collection; otherwise a node whose parent is a Collection and whose name
  occurs in the parent's name is an Element; every other node is a Resource, whatever
  fields its sample has. No node is Unknown.
\<close>

theorem category_three_kinds:
  "category m =
     (if (\<exists>a b. lower (name m) = a @ ''collection'' @ b) then COLLECTION
      else if (\<exists>q a b. parent m = Some q \<and> category q = COLLECTION \<and> name q = a @ name m @ b)
           then ELEMENT
      else RESOURCE)
   \<and> category m \<noteq> UNKNOWN"
proof (cases m)
  case (RedfishData n d u p)
  have "category m =
     (if contains ''collection'' (lower (name m)) then COLLECTION
      else if (\<exists>q. parent m = Some q \<and> category q = COLLECTION \<and> contains (name m) (name q))
           then ELEMENT
      else RESOURCE)"
    using RedfishData by (auto split: option.splits)
  then show ?thesis
    unfolding contains_iff by (auto split: if_splits)
qed

text \<open>The three kinds at concrete nodes.\<close>

theorem category_three_kinds_witness:
  "category (RedfishData ''Drive'' (JObj []) ''/d/1''
      (Some (RedfishData ''DriveCollection'' (JObj []) ''/d'' None))) = ELEMENT
   \<and> category (RedfishData ''DriveCollection'' (JObj []) ''/d'' None) = COLLECTION
   \<and> category (RedfishData ''Foo'' (JObj [(''@odata.type'', JStr ''#Foo.v1_0_0.Foo'')]) ''/foo'' None) = RESOURCE"
  using category_three_kinds [of "RedfishData ''Drive'' (JObj []) ''/d/1''
      (Some (RedfishData ''DriveCollection'' (JObj []) ''/d'' None))"]
    category_three_kinds [of "RedfishData ''DriveCollection'' (JObj []) ''/d'' None"]
    category_three_kinds [of "RedfishData ''Foo'' (JObj [(''@odata.type'', JStr ''#Foo.v1_0_0.Foo'')]) ''/foo'' None"]
  by (simp add: contains_iff [symmetric] lower_def lower_char_def)

text \<open>
  Claim C3 as stated fails: the node that the scanner builds from a sample with a type
  tag and no \<open>@odata.id\<close> has no Collection name, no parent and not the identity field,
  and it is a Resource, not Unknown.
\<close>

theorem category_unknown_counterexample:
  "get_model_name (JObj [(''@odata.type'', JStr ''#Foo.v1_0_0.Foo'')]) = Inr (Some ''Foo'')
   \<and> dict_get [(''@odata.type'', JStr ''#Foo.v1_0_0.Foo'')] ''@odata.id'' = JNull
   \<and> \<not> contains ''collection'' (lower ''Foo'')
   \<and> category (RedfishData ''Foo'' (JObj [(''@odata.type'', JStr ''#Foo.v1_0_0.Foo'')]) ''/foo'' None) \<noteq> UNKNOWN"
  by (simp add: get_model_name_def dict_get_def replace_def lower_def lower_char_def upper_char_def)

section \<open>The collapse of a Collection definition\<close>

text \<open>
  Claim C4, as the code has it. After the pipeline, a draft definition of category
  Collection is still among the definitions, under its name (under the \<open>full_name\<close> of
  the node when the two differ in case only): its base is the canonical Collection type
  alone, and its fields are those it had without the defining and the optional fields of
  the category (after the \<open>_url\<close> field, when it is the root). No step rewrites a
  reference to a Collection definition: every field of every definition is the \<open>_url\<close>
  field, or a field of the results with its data type as it was or replaced by the
  canonical Link or Action type.
\<close>

theorem collection_definition_collapsed:
  assumes "get_data_models type_hint py_str rd cd results = Inr out"
    and "m \<in> set results" and "model_category m = COLLECTION_MODEL"
  shows "(\<exists>m' \<in> set out.
            model_name m' =
              (if lower (model_name m) = lower (full_name rd) then full_name rd else model_name m) \<and>
            base_classes m' = [get_data_type COLLECTION_MODEL None False] \<and>
            map field_name (model_fields m') =
              (if model_name m = full_name rd then [''_url''] else []) @
              filter (\<lambda>n. n \<notin> set (fields_get category_fields COLLECTION_MODEL @
                                      fields_get optional_fields COLLECTION_MODEL))
                (map field_name (model_fields m)))
    \<and> (\<forall>m' \<in> set out. \<forall>f' \<in> set (model_fields m').
          f' = url_field rd \<or>
          (\<exists>m0 \<in> set results. \<exists>f \<in> set (model_fields m0).
             field_name f' = field_name f \<and> default_value f' = default_value f \<and>
             (data_type f' = data_type f
              \<or> (\<exists>coll opt. data_type f' = get_data_type LINK_MODEL coll opt)
              \<or> (\<exists>coll opt. data_type f' = get_data_type ACTION_MODEL coll opt))))"
proof
  define s1 where "s1 = update_collection_methods rd cd results"
  define s2 where "s2 = clean_up_models type_hint LINK_MODEL s1"
  define s3 where "s3 = clean_up_models type_hint ACTION_MODEL s2"
  define s4 where "s4 = update_classes RESOURCE_MODEL s3"
  define s5 where "s5 = update_classes COLLECTION_MODEL s4"
  from assms(1) obtain s6 where s6: "update_description py_str rd s5 = Inr s6"
    and out: "out = update_root_model_name rd (update_url rd s6)"
    by (auto simp: get_data_models_def Let_def s1_def s2_def s3_def s4_def s5_def split: sum.splits)
  show "\<exists>m' \<in> set out.
      model_name m' =
        (if lower (model_name m) = lower (full_name rd) then full_name rd else model_name m) \<and>
      base_classes m' = [get_data_type COLLECTION_MODEL None False] \<and>
      map field_name (model_fields m') =
        (if model_name m = full_name rd then [''_url''] else []) @
        filter (\<lambda>n. n \<notin> set (fields_get category_fields COLLECTION_MODEL @
                                fields_get optional_fields COLLECTION_MODEL))
          (map field_name (model_fields m))"
  proof -
    from update_collection_methods_keeps [OF assms(2), of rd cd]
    obtain m1 where m1: "m1 \<in> set s1" "model_name m1 = model_name m"
      "model_fields m1 = model_fields m"
      unfolding s1_def by blast
    with assms(3) have c1: "model_category m1 = COLLECTION_MODEL"
      using model_category_names [of m1 m] by simp
    then have "model_category m1 \<noteq> LINK_MODEL" by simp
    from clean_up_models_keeps [OF m1(1) this, of type_hint]
    obtain m2 where m2: "m2 \<in> set s2" "model_name m2 = model_name m1"
      "map field_name (model_fields m2) = map field_name (model_fields m1)"
      unfolding s2_def by blast
    with c1 have c2: "model_category m2 = COLLECTION_MODEL"
      using model_category_names [of m2 m1] by simp
    then have "model_category m2 \<noteq> ACTION_MODEL" by simp
    from clean_up_models_keeps [OF m2(1) this, of type_hint]
    obtain m3 where m3: "m3 \<in> set s3" "model_name m3 = model_name m2"
      "map field_name (model_fields m3) = map field_name (model_fields m2)"
      unfolding s3_def by blast
    with c2 have c3: "model_category m3 = COLLECTION_MODEL"
      using model_category_names [of m3 m2] by simp
    then have "model_category m3 \<noteq> RESOURCE_MODEL" by simp
    from update_classes_keeps [OF m3(1) this] have m4: "m3 \<in> set s4"
      unfolding s4_def .
    from update_classes_collapses [OF m4 c3]
    obtain m5 where m5: "m5 \<in> set s5" "model_name m5 = model_name m3"
      "map field_name (model_fields m5) =
         filter (\<lambda>n. n \<notin> set (fields_get category_fields COLLECTION_MODEL @
                                fields_get optional_fields COLLECTION_MODEL))
           (map field_name (model_fields m3))"
      "base_classes m5 = [get_data_type COLLECTION_MODEL None False]"
      unfolding s5_def by blast
    from update_description_keeps [OF s6 m5(1)]
    obtain m6 where m6: "m6 \<in> set s6" "model_name m6 = model_name m5"
      "model_fields m6 = model_fields m5" "base_classes m6 = base_classes m5"
      by blast
    from update_url_keeps [OF m6(1), of rd]
    obtain m7 where m7: "m7 \<in> set (update_url rd s6)" "model_name m7 = model_name m6"
      "model_fields m7 = (if model_name m6 = full_name rd then [url_field rd] else []) @ model_fields m6"
      "base_classes m7 = base_classes m6"
      by blast
    from update_root_model_name_keeps [OF m7(1), of rd]
    obtain m8 where m8: "m8 \<in> set out" "model_fields m8 = model_fields m7"
      "base_classes m8 = base_classes m7"
      "model_name m8 =
         (if lower (model_name m7) = lower (full_name rd) then full_name rd else model_name m7)"
      unfolding out by blast
    have "base_classes m8 = [get_data_type COLLECTION_MODEL None False]"
      using m8 m7 m6 m5 by simp
    moreover have "map field_name (model_fields m8) =
        (if model_name m = full_name rd then [''_url''] else []) @
        filter (\<lambda>n. n \<notin> set (fields_get category_fields COLLECTION_MODEL @
                                fields_get optional_fields COLLECTION_MODEL))
          (map field_name (model_fields m))"
      using m8 m7 m6 m5 m3 m2 m1 by (simp add: url_field_def)
    moreover have "model_name m8 =
        (if lower (model_name m) = lower (full_name rd) then full_name rd else model_name m)"
      using m8(4) m7(2) m6(2) m5(2) m3(2) m2(2) m1(2) by simp
    ultimately show ?thesis using m8(1) by blast
  qed
  show "\<forall>m' \<in> set out. \<forall>f' \<in> set (model_fields m').
      f' = url_field rd \<or>
      (\<exists>m0 \<in> set results. \<exists>f \<in> set (model_fields m0).
         field_name f' = field_name f \<and> default_value f' = default_value f \<and>
         (data_type f' = data_type f
          \<or> (\<exists>coll opt. data_type f' = get_data_type LINK_MODEL coll opt)
          \<or> (\<exists>coll opt. data_type f' = get_data_type ACTION_MODEL coll opt)))"
    using get_data_models_fields [OF assms(1)] by blast
qed

text \<open>The collection embedded in the service root.\<close>

theorem collection_definition_collapsed_witness:
  "get_data_models example_type_hint example_str root_node None root_results = Inr root_models
   \<and> root_results ! 1 \<in> set root_results
   \<and> model_category (root_results ! 1) = COLLECTION_MODEL
   \<and> map field_name (model_fields (root_results ! 1)) =
       [''odata_id'', ''odata_type'', ''members_odata_count'', ''members'', ''vendor'']
   \<and> model_name (root_models ! 1) = model_name (root_results ! 1)
   \<and> base_classes (root_models ! 1) = [get_data_type COLLECTION_MODEL None False]
   \<and> map field_name (model_fields (root_models ! 1)) = [''vendor'']"
proof -
  have mem: "root_results ! 1 \<in> set root_results" by (simp add: root_results_def)
  have cat: "model_category (root_results ! 1) = COLLECTION_MODEL" by code_simp
  have names: "map field_name (model_fields (root_results ! 1)) =
       [''odata_id'', ''odata_type'', ''members_odata_count'', ''members'', ''vendor'']"
    by code_simp
  have out: "base_classes (root_models ! 1) = [get_data_type COLLECTION_MODEL None False]"
    "map field_name (model_fields (root_models ! 1)) = [''vendor'']"
    by (simp_all add: root_models_def)
  have same: "model_name (root_models ! 1) = model_name (root_results ! 1)" by code_simp
  from collection_definition_collapsed [OF root_run mem cat]
  show ?thesis using root_run mem cat names out same by blast
qed

text \<open>
  Claim C4 as stated fails: the root's field \<open>drives\<close> referred to the Collection
  definition \<open>Drives\<close>, and after the pipeline it refers to \<open>Drives\<close> still, not to the
  canonical Collection type.
\<close>

theorem collection_reference_counterexample:
  "model_category (root_results ! 1) = COLLECTION_MODEL
   \<and> model_name (root_results ! 1) = ''Drives''
   \<and> model_fields (root_results ! 0) ! 2 =
       \<lparr>field_name = ''drives'', data_type = reference_to ''Drives'', default_value = None\<rparr>
   \<and> example_type_hint (model_fields (root_results ! 0) ! 2) = ''Drives''
   \<and> get_data_models example_type_hint example_str root_node None root_results = Inr root_models
   \<and> model_fields (root_models ! 0) ! 1 =
       \<lparr>field_name = ''drives'', data_type = reference_to ''Drives'', default_value = None\<rparr>
   \<and> reference_to ''Drives'' \<noteq> get_data_type COLLECTION_MODEL None False"
proof -
  have "model_category (root_results ! 1) = COLLECTION_MODEL"
    "model_name (root_results ! 1) = ''Drives''"
    "model_fields (root_results ! 0) ! 2 =
       \<lparr>field_name = ''drives'', data_type = reference_to ''Drives'', default_value = None\<rparr>"
    "example_type_hint (model_fields (root_results ! 0) ! 2) = ''Drives''"
    by code_simp+
  moreover have "model_fields (root_models ! 0) ! 1 =
       \<lparr>field_name = ''drives'', data_type = reference_to ''Drives'', default_value = None\<rparr>"
    by (simp add: root_models_def)
  moreover have "reference_to ''Drives'' \<noteq> get_data_type COLLECTION_MODEL None False"
    by (simp add: reference_to_def get_data_type_def)
  ultimately show ?thesis using root_run by blast
qed

section \<open>The width of a collection\<close>

text \<open>
  Claim C5, as the code has it. Let \<open>Members\<close> be a list of \<open>M\<close> entries and \<open>W\<close>
  the width. When \<open>M \<le> W\<close>, \<open>_get_uris\<close> follows every entry, in the order of the
  list. When \<open>0 \<le> W < M\<close>, \<open>random.sample\<close> selects \<open>W\<close> positions of the list, no
  position twice, and \<open>_get_uris\<close> follows the entries at these positions and no other
  entry. To follow entries is to apply \<open>_get_uris\<close> to each of them in turn and to
  append the URIs it gives, one list for each entry; an entry \<open>{"@odata.id": u}\<close> gives
  \<open>u\<close>. When \<open>W < 0\<close>, \<open>random.sample\<close> raises \<open>ValueError\<close> and \<open>_get_uris\<close>
  returns no URI. What \<open>_get_uris\<close> has appended stays in the list it returns. The
  generator behind \<open>random.sample\<close> is a parameter, under the contract \<open>sampler_ok\<close>
  of \<open>random.sample\<close>; how it distributes its choices is the library's.

  A call that visits a URI, with room for the calls of its loop, returns with every
  extracted string marked as scanned, unless the budget is used up by then, the string is
  excluded, or a value that is not a string is among the extracted URIs; when
  \<open>_get_uris\<close> raises, the call records the problem and visits no other URI.
\<close>

theorem members_width_bound:
  assumes "sampler_ok pick"
  shows "(int (length ms) \<le> W \<longrightarrow>
            get_uris_items pick W ((''Members'', JArr ms) # rest) result g =
              items_after pick W rest (append_followed result (followed_entries pick W ms g)))
    \<and> (0 \<le> W \<and> W < int (length ms) \<longrightarrow>
          (\<exists>idxs g1. pick g (length ms) (nat W) = (idxs, g1) \<and> int (length idxs) = W \<and> distinct idxs
             \<and> (\<forall>i \<in> set idxs. i < length ms)
             \<and> get_uris_items pick W ((''Members'', JArr ms) # rest) result g =
                 items_after pick W rest
                   (append_followed result (followed_entries pick W (map ((!) ms) idxs) g1))))
    \<and> (W < 0 \<longrightarrow>
          get_uris_items pick W ((''Members'', JArr ms) # rest) result g = (Inl ValueError, g))
    \<and> (\<forall>es g0 uss g1. followed_entries pick W es g0 = (Inr uss, g1) \<longrightarrow> length uss = length es)
    \<and> (\<forall>us g0. followed_entries pick W (map (\<lambda>u. JObj [(''@odata.id'', JStr u)]) us) g0 =
          (Inr (map (\<lambda>u. [JStr u]) us), g0))
    \<and> (\<forall>acc g1 uris g2. items_after pick W rest (Inr acc, g1) = (Inr uris, g2) \<longrightarrow> prefix acc uris)
    \<and> (\<forall>s c d nm uris g' n par.
          visits s c \<longrightarrow> get_json c = Inr d \<longrightarrow> get_model_name d = Inr nm \<longrightarrow>
          get_uris pick (max_collection s) d (rng s) = (Inr uris, g') \<longrightarrow>
          (\<exists>s'. scan_models get_json pick (Suc (Suc n)) s (JStr c) par = Inr s'
             \<and> (\<forall>x. JStr x \<in> set uris \<longrightarrow>
                   x \<in> set (scanned_uris s') \<or> \<not> budget_left s' \<or> excluded x
                   \<or> (\<exists>y \<in> set uris. \<forall>w. y \<noteq> JStr w))))
    \<and> (\<forall>s c d nm e g' n par.
          visits s c \<longrightarrow> get_json c = Inr d \<longrightarrow> get_model_name d = Inr nm \<longrightarrow>
          get_uris pick (max_collection s) d (rng s) = (Inl e, g') \<longrightarrow>
          (\<exists>s'. scan_models get_json pick (Suc n) s (JStr c) par = Inr s'
             \<and> scanned_uris s' = scanned_uris s @ [c]
             \<and> problems s' = problems s @ [\<lparr>url = c, description = str_error e\<rparr>]))"
proof (intro conjI allI impI)
  {
    assume "int (length ms) \<le> W"
    then show "get_uris_items pick W ((''Members'', JArr ms) # rest) result g =
        items_after pick W rest (append_followed result (followed_entries pick W ms g))"
      by (rule members_all)
  }
  {
    assume W: "0 \<le> W \<and> W < int (length ms)"
    obtain idxs g1 where p: "pick g (length ms) (nat W) = (idxs, g1)"
      by (cases "pick g (length ms) (nat W)")
    from W have "nat W \<le> length ms" by linarith
    with assms(1) p have ok: "length idxs = nat W" "distinct idxs" "\<forall>i \<in> set idxs. i < length ms"
      unfolding sampler_ok_def by (metis fst_conv)+
    from W ok(1) have "int (length idxs) = W" by simp
    moreover from W p ok(3)
    have "get_uris_items pick W ((''Members'', JArr ms) # rest) result g =
        items_after pick W rest
          (append_followed result (followed_entries pick W (map ((!) ms) idxs) g1))"
      by (intro members_sampled) simp_all
    ultimately show "\<exists>idxs g1. pick g (length ms) (nat W) = (idxs, g1) \<and> int (length idxs) = W \<and> distinct idxs
             \<and> (\<forall>i \<in> set idxs. i < length ms)
             \<and> get_uris_items pick W ((''Members'', JArr ms) # rest) result g =
                 items_after pick W rest
                   (append_followed result (followed_entries pick W (map ((!) ms) idxs) g1))"
      using p ok by blast
  }
  {
    assume "W < 0"
    then show "get_uris_items pick W ((''Members'', JArr ms) # rest) result g = (Inl ValueError, g)"
      by (rule members_refused)
  }
  {
    fix es g0 uss g1
    assume "followed_entries pick W es g0 = (Inr uss, g1)"
    then show "length uss = length es" by (rule followed_entries_length)
  }
  {
    fix us g0
    show "followed_entries pick W (map (\<lambda>u. JObj [(''@odata.id'', JStr u)]) us) g0 =
        (Inr (map (\<lambda>u. [JStr u]) us), g0)"
      by (rule followed_entries_links)
  }
  {
    fix acc g1 uris g2
    assume "items_after pick W rest (Inr acc, g1) = (Inr uris, g2)"
    then show "prefix acc uris" by (simp add: items_after_def get_uris_items_prefix)
  }
  {
    fix s :: "'a Scanner" and c d nm uris g' n par
    assume v: "visits s c" and d: "get_json c = Inr d" and nm: "get_model_name d = Inr nm"
      and uris: "get_uris pick (max_collection s) d (rng s) = (Inr uris, g')"
    obtain s' where run: "scan_models get_json pick (Suc (Suc n)) s (JStr c) par = Inr s'"
      using scan_models_returns by blast
    have "x \<in> set (scanned_uris s') \<or> \<not> budget_left s' \<or> excluded x
        \<or> (\<exists>y \<in> set uris. \<forall>w. y \<noteq> JStr w)" if "JStr x \<in> set uris" for x
      using v d nm uris run that by (rule scan_models_explores)
    with run show "\<exists>s'. scan_models get_json pick (Suc (Suc n)) s (JStr c) par = Inr s'
             \<and> (\<forall>x. JStr x \<in> set uris \<longrightarrow>
                   x \<in> set (scanned_uris s') \<or> \<not> budget_left s' \<or> excluded x
                   \<or> (\<exists>y \<in> set uris. \<forall>w. y \<noteq> JStr w))"
      by blast
  }
  {
    fix s :: "'a Scanner" and c d nm e g' n par
    assume v: "visits s c" and d: "get_json c = Inr d" and nm: "get_model_name d = Inr nm"
      and uris: "get_uris pick (max_collection s) d (rng s) = (Inl e, g')"
    show "\<exists>s'. scan_models get_json pick (Suc n) s (JStr c) par = Inr s'
             \<and> scanned_uris s' = scanned_uris s @ [c]
             \<and> problems s' = problems s @ [\<lparr>url = c, description = str_error e\<rparr>]"
      unfolding scan_models_visit [where get_json = get_json, OF v d nm] uris
      by (simp add: add_problem_def register_def mark_def split: option.splits)
  }
qed

text \<open>
  The three members of the collection of drives under the widths two and three; a scan
  of the collection with the width two, which visits the two members selected.
\<close>

theorem members_width_bound_witness:
  "sampler_ok (take_first :: unit sampler)
   \<and> get_uris take_first 2
        (JObj [(''Members'', JArr [JObj [(''@odata.id'', JStr ''/c/1'')], JObj [(''@odata.id'', JStr ''/c/2'')],
                                   JObj [(''@odata.id'', JStr ''/c/3'')]])]) () =
      (Inr [JStr ''/c/1'', JStr ''/c/2''], ())
   \<and> get_uris take_first 3
        (JObj [(''Members'', JArr [JObj [(''@odata.id'', JStr ''/c/1'')], JObj [(''@odata.id'', JStr ''/c/2'')],
                                   JObj [(''@odata.id'', JStr ''/c/3'')]])]) () =
      (Inr [JStr ''/c/1'', JStr ''/c/2'', JStr ''/c/3''], ())
   \<and> get_uris take_first 2 drives () = (Inr [JStr ''/c'', JStr ''/c/1'', JStr ''/c/2''], ())
   \<and> (case scan_models drives_json take_first 2 (Scanner_init 10 2 ()) (JStr ''/c'') None of
         Inr s' \<Rightarrow> scanned_uris s' | Inl e \<Rightarrow> []) = [''/c'', ''/c/1'', ''/c/2'']"
proof -
  let ?ms = "[JObj [(''@odata.id'', JStr ''/c/1'')], JObj [(''@odata.id'', JStr ''/c/2'')],
              JObj [(''@odata.id'', JStr ''/c/3'')]]"
  have two: "get_uris take_first 2 (JObj [(''Members'', JArr ?ms)]) () =
      (Inr [JStr ''/c/1'', JStr ''/c/2''], ())"
    by code_simp
  have whole: "get_uris take_first 2 drives () = (Inr [JStr ''/c'', JStr ''/c/1'', JStr ''/c/2''], ())"
    by code_simp
  have scan: "(case scan_models drives_json take_first 2 (Scanner_init 10 2 ()) (JStr ''/c'') None of
         Inr s' \<Rightarrow> scanned_uris s' | Inl e \<Rightarrow> []) = [''/c'', ''/c/1'', ''/c/2'']"
    by code_simp
  have all: "followed_entries take_first 3 ?ms () =
      (Inr [[JStr ''/c/1''], [JStr ''/c/2''], [JStr ''/c/3'']], ())"
    by simp
  from members_width_bound [OF sampler_ok_take_first, of ?ms 3 "[]" "[]" "()"]
  have "get_uris_items take_first 3 [(''Members'', JArr ?ms)] [] () =
      items_after take_first 3 [] (append_followed [] (followed_entries take_first 3 ?ms ()))"
    by (simp del: get_uris.simps get_uris_items.simps get_uris_entries.simps followed_entries.simps)
  then have "get_uris take_first 3 (JObj [(''Members'', JArr ?ms)]) () =
      (Inr [JStr ''/c/1'', JStr ''/c/2'', JStr ''/c/3''], ())"
    unfolding all by (simp add: items_after_def append_followed_def del: get_uris_items.simps(2))
  with two whole scan show ?thesis
    using sampler_ok_take_first [where 'a = unit] by simp
qed

text \<open>
  Claim C5 as stated fails on a scan. With three members, the width fifty and the budget
  of two nodes, the collection and its first member use up the budget and the two other
  members are not visited, although the width admits every member. With a negative
  width no member is visited: \<open>random.sample\<close> raises \<open>ValueError\<close>.
\<close>

theorem width_counterexample:
  "scan_models drives_json take_first 3 (Scanner_init 2 50 ()) (JStr ''/c'') None =
     Inr \<lparr>max_models = 2, max_collection = 50, redfish = [drives_node, first_drive],
          scanned_uris = [''/c'', ''/c/1''], problems = [], rng = ()\<rparr>
   \<and> get_uris take_first 50 drives () =
       (Inr [JStr ''/c'', JStr ''/c/1'', JStr ''/c/2'', JStr ''/c/3''], ())
   \<and> scan_models drives_json take_first 3 (Scanner_init 10 (- 1) ()) (JStr ''/c'') None =
     Inr \<lparr>max_models = 10, max_collection = - 1, redfish = [drives_node],
          scanned_uris = [''/c''],
          problems = [\<lparr>url = ''/c'', description = ''ValueError''\<rparr>], rng = ()\<rparr>"
  by code_simp

section \<open>A fetch that fails\<close>

text \<open>
  Claim C6. Let the fetch of \<open>u\<close> fail. A call that visits \<open>u\<close> marks it, appends one
  problem with \<open>u\<close> and the text of the failure, and returns; the loop that made the
  call goes on with the URIs left. Over a whole scan, started at any URI, the problems
  that record \<open>u\<close> are those recorded before and, when the scan has visited \<open>u\<close>, this
  one problem. The failure leaves no call as an exception: a call on a string returns
  a scanner, whatever the fetches below it do.
\<close>

theorem fetch_failure_recorded_once:
  assumes "get_json u = Inl err"
  shows "(visits s u \<longrightarrow>
            scan_models get_json pick (Suc n) s (JStr u) par = Inr (add_problem (mark s u) u err))
    \<and> (visits s u \<longrightarrow>
            scan_uris (scan_models get_json pick (Suc n)) s (JStr u # uris) model =
            scan_uris (scan_models get_json pick (Suc n)) (add_problem (mark s u) u err) uris model)
    \<and> (\<forall>k e p t. scan_models get_json pick k s e p = Inr t \<longrightarrow> u \<notin> set (scanned_uris s) \<longrightarrow>
            filter (\<lambda>q. url q = u) (problems t) =
              filter (\<lambda>q. url q = u) (problems s) @
              (if u \<in> set (scanned_uris t) then [\<lparr>url = u, description = str_error err\<rparr>] else []))
    \<and> (\<forall>k e p. \<exists>t. scan_models get_json pick (Suc k) s (JStr e) p = Inr t)"
proof (intro conjI allI impI)
  assume "visits s u"
  with assms show "scan_models get_json pick (Suc n) s (JStr u) par = Inr (add_problem (mark s u) u err)"
    by (simp add: scan_models_fetch_failed)
next
  assume v: "visits s u"
  then have "u \<notin> set (scanned_uris s)" by (simp add: visits_def)
  with scan_models_fetch_failed [where get_json = get_json, OF v assms]
  show "scan_uris (scan_models get_json pick (Suc n)) s (JStr u # uris) model =
        scan_uris (scan_models get_json pick (Suc n)) (add_problem (mark s u) u err) uris model"
    by simp
next
  fix k e p t
  assume run: "scan_models get_json pick k s e p = Inr t" and "u \<notin> set (scanned_uris s)"
  with effects_failures [where get_json = get_json, OF scan_models_effects [OF run] assms]
  show "filter (\<lambda>q. url q = u) (problems t) =
      filter (\<lambda>q. url q = u) (problems s) @
      (if u \<in> set (scanned_uris t) then [\<lparr>url = u, description = str_error err\<rparr>] else [])"
    by simp
next
  fix k e p
  show "\<exists>t. scan_models get_json pick (Suc k) s (JStr e) p = Inr t"
    by (rule scan_models_returns)
qed

text \<open>In the example service the fetch of \<open>/x\<close> fails.\<close>

theorem fetch_failure_recorded_once_witness:
  "demo_json ''/x'' = Inl (TransportFailure ''404'')
   \<and> scan_models demo_json take_first 2 (Scanner_init 10 50 ()) (JStr ''/a'') None =
     Inr \<lparr>max_models = 10, max_collection = 50, redfish = [demo_root, demo_manager],
           scanned_uris = [''/a'', ''/m1'', ''/m2'', ''/x''],
           problems = [\<lparr>url = ''/x'', description = ''404''\<rparr>], rng = ()\<rparr>
   \<and> visits (Scanner_init 10 50 ()) ''/x''
   \<and> scan_models demo_json take_first 1 (Scanner_init 10 50 ()) (JStr ''/x'') None =
     Inr \<lparr>max_models = 10, max_collection = 50, redfish = [],
           scanned_uris = [''/x''],
           problems = [\<lparr>url = ''/x'', description = ''404''\<rparr>], rng = ()\<rparr>
   \<and> filter (\<lambda>q. url q = ''/x'') [\<lparr>url = ''/x'', description = ''404''\<rparr>] =
       [\<lparr>url = ''/x'', description = ''404''\<rparr>]"
proof -
  have fails: "demo_json ''/x'' = Inl (TransportFailure ''404'')"
    by (simp add: demo_json_def)
  have v: "visits (Scanner_init 10 50 ()) ''/x''"
    by (simp add: visits_def Scanner_init_def lower_def lower_char_def)
  from fetch_failure_recorded_once [where get_json = demo_json and s = "Scanner_init 10 50 ()"
      and pick = take_first and n = 0 and par = None, OF fails]
  show ?thesis
    using fails v demo_scan by (simp add: Scanner_init_def add_problem_def mark_def)
qed

section \<open>A node that is not registered\<close>




section \<open>The exported names in the index file\<close>

text \<open>
  Claim C8 fails on the code. When a name does not fit the current line, the loop
  writes the line out and starts a new one without the name: of the four units, all
  persisted, the index lists \<open>ComputerSystemCollectionComputerSystem\<close> and not
  \<open>ServiceRootComputerSystemCollection\<close>, a name of the same unit.
\<close>

theorem init_file_drops_a_name:
  "''ServiceRootComputerSystemCollection'' \<in> set (concat (map snd library_units))
   \<and> \<not> contains ([CHR 0x22] @ ''ServiceRootComputerSystemCollection'' @ [CHR 0x22])
         (prepare_init_file library_units)
   \<and> contains ([CHR 0x22] @ ''ComputerSystemCollectionComputerSystem'' @ [CHR 0x22])
         (prepare_init_file library_units)"
  by code_simp

section \<open>The chassis scenario\<close>

text \<open>
  Claim C9, as the code has it. Let the budget be positive and the fetch of the entry
  URI, which is not excluded, return the instance. The first node the scan registers is
  the entry's: it is named \<open>Chassis\<close>, of category Resource and with the \<open>full_name\<close>
  \<open>Chassis\<close>, and it has no member URIs. \<open>_get_uris\<close> extracts one URI from the
  instance, its own \<open>@odata.id\<close>, \<open>/c/1\<close>. When the entry URI is \<open>/c/1\<close>, the scan
  registers this one node, visits no other URI and records no problem.
\<close>

theorem chassis_scenario:
  assumes "get_json entry = Inr chassis" and "0 < N"
    and "\<not> contains ''jsonschemas'' (lower entry)"
  shows "(\<exists>s'. scan_models get_json pick (Suc n) (Scanner_init N W g) (JStr entry) None = Inr s'
       \<and> prefix [RedfishData ''Chassis'' chassis entry None] (redfish s')
       \<and> prefix [entry] (scanned_uris s')
       \<and> (entry = ''/c/1'' \<longrightarrow>
            s' = \<lparr>max_models = N, max_collection = W,
                  redfish = [RedfishData ''Chassis'' chassis ''/c/1'' None],
                  scanned_uris = [''/c/1''], problems = [], rng = g\<rparr>))
    \<and> category (RedfishData ''Chassis'' chassis entry None) = RESOURCE
    \<and> full_name (RedfishData ''Chassis'' chassis entry None) = ''Chassis''
    \<and> get_uris pick W chassis g = (Inr [JStr ''/c/1''], g)
    \<and> collection_uris (RedfishData ''Chassis'' chassis entry None) = Inr []"
proof (intro conjI)
  let ?s = "Scanner_init N W g"
  let ?m = "RedfishData ''Chassis'' chassis entry None"
  have v: "visits ?s entry"
    using assms(2,3) by (simp add: visits_def Scanner_init_def)
  have nm: "get_model_name chassis = Inr (Some ''Chassis'')"
    by (simp add: chassis_def get_model_name_def dict_get_def replace_def upper_char_def)
  show uris: "get_uris pick W chassis g = (Inr [JStr ''/c/1''], g)"
    by (simp add: chassis_def)
  then have uris': "get_uris pick (max_collection ?s) chassis (rng ?s) = (Inr [JStr ''/c/1''], g)"
    by (simp add: Scanner_init_def)
  obtain s' where run: "scan_models get_json pick (Suc n) ?s (JStr entry) None = Inr s'"
    using scan_models_returns by blast
  have built: "register (mark ?s entry) (new_model None (Some ''Chassis'') chassis entry) =
      \<lparr>max_models = N, max_collection = W, redfish = [?m],
       scanned_uris = [entry], problems = [], rng = g\<rparr>"
    by (simp add: new_model_def register_def mark_def Scanner_init_def)
  from scan_models_steps [where get_json = get_json, OF v assms(1) nm run]
  have eff: "effects get_json \<lparr>max_models = N, max_collection = W, redfish = [?m],
       scanned_uris = [entry], problems = [], rng = g\<rparr> s'"
    by (simp add: built)
  from effects_redfish_prefix [OF eff] have p1: "prefix [?m] (redfish s')" by simp
  from effects_scanned_prefix [OF eff] have p2: "prefix [entry] (scanned_uris s')" by simp
  have only: "s' = \<lparr>max_models = N, max_collection = W,
                  redfish = [RedfishData ''Chassis'' chassis ''/c/1'' None],
                  scanned_uris = [''/c/1''], problems = [], rng = g\<rparr>" if "entry = ''/c/1''"
    using run that
    unfolding scan_models_visit [where get_json = get_json, OF v assms(1) nm] uris'
    by (simp add: new_model_def register_def mark_def finish_def Scanner_init_def)
  from run p1 p2 only
  show "\<exists>s'. scan_models get_json pick (Suc n) ?s (JStr entry) None = Inr s'
       \<and> prefix [?m] (redfish s')
       \<and> prefix [entry] (scanned_uris s')
       \<and> (entry = ''/c/1'' \<longrightarrow>
            s' = \<lparr>max_models = N, max_collection = W,
                  redfish = [RedfishData ''Chassis'' chassis ''/c/1'' None],
                  scanned_uris = [''/c/1''], problems = [], rng = g\<rparr>)"
    by blast
  show "category ?m = RESOURCE"
    by (simp add: lower_def lower_char_def)
  show "full_name ?m = ''Chassis''"
    by (simp add: full_name_def)
  show "collection_uris ?m = Inr []"
    by (simp add: collection_uris_def chassis_def)
qed

text \<open>The scenario with the default budget and width, the entry URI being \<open>/c/1\<close>.\<close>

theorem chassis_scenario_witness:
  "(\<lambda>u. Inr chassis) ''/c/1'' = (Inr chassis :: error + json) \<and> (0::int) < 500
   \<and> \<not> contains ''jsonschemas'' (lower ''/c/1'')
   \<and> scan_models (\<lambda>u. Inr chassis) take_first 1 (Scanner_init 500 50 ()) (JStr ''/c/1'') None =
      Inr \<lparr>max_models = 500, max_collection = 50,
            redfish = [RedfishData ''Chassis'' chassis ''/c/1'' None],
            scanned_uris = [''/c/1''], problems = [], rng = ()\<rparr>"
proof -
  have ex: "\<not> contains ''jsonschemas'' (lower ''/c/1'')" by code_simp
  from chassis_scenario [where get_json = "\<lambda>u. Inr chassis" and N = 500 and W = 50 and g = "()"
      and pick = take_first and n = 0 and entry = "''/c/1''", OF _ _ ex]
  show ?thesis using ex by auto
qed

text \<open>
  Claim C9 as stated fails: \<open>_get_uris\<close> extracts the URI \<open>/c/1\<close> from the instance,
  not zero URIs, and a scan whose entry URI is another one goes on to visit \<open>/c/1\<close>.
\<close>

theorem chassis_scenario_counterexample:
  "get_uris take_first 50 chassis () = (Inr [JStr ''/c/1''], ())
   \<and> scan_models (\<lambda>u. Inr chassis) take_first 2 (Scanner_init 500 50 ()) (JStr ''/redfish/v1/'') None =
      Inr \<lparr>max_models = 500, max_collection = 50,
            redfish = [RedfishData ''Chassis'' chassis ''/redfish/v1/'' None],
            scanned_uris = [''/redfish/v1/'', ''/c/1''], problems = [], rng = ()\<rparr>"
  by code_simp

section \<open>The category of a draft definition\<close>

text \<open>
  Claim C10. The category of a definition is that of the last entry of
  \<open>category_fields\<close>, in the order Link, Action, Resource, Collection, whose fields are
  all among the definition's field names, and Unknown when there is none. A definition
  with the identity-link, type, member-count and member-list fields has the fields of
  Link and of Resource too, and its category is Collection.
\<close>

theorem model_category_last_match:
  "model_category m =
     (case filter (\<lambda>(cat, names). fields_are_present m names) category_fields of
        [] \<Rightarrow> UNKNOWN_MODEL
      | ms \<Rightarrow> fst (last ms))
   \<and> map fst category_fields = [LINK_MODEL, ACTION_MODEL, RESOURCE_MODEL, COLLECTION_MODEL]
   \<and> (fields_are_present m [''odata_id'', ''odata_type'', ''members_odata_count'', ''members''] \<longrightarrow>
         model_category m = COLLECTION_MODEL
         \<and> fields_are_present m (fields_get category_fields LINK_MODEL)
         \<and> fields_are_present m (fields_get category_fields RESOURCE_MODEL))"
proof (intro conjI impI)
  show "model_category m =
     (case filter (\<lambda>(cat, names). fields_are_present m names) category_fields of
        [] \<Rightarrow> UNKNOWN_MODEL
      | ms \<Rightarrow> fst (last ms))"
    unfolding model_category_def by (rule fold_last_match)
  show "map fst category_fields = [LINK_MODEL, ACTION_MODEL, RESOURCE_MODEL, COLLECTION_MODEL]"
    by (simp add: category_fields_def)
next
  assume present: "fields_are_present m [''odata_id'', ''odata_type'', ''members_odata_count'', ''members'']"
  then show "model_category m = COLLECTION_MODEL"
    by (simp add: model_category_def category_fields_def)
  from present show "fields_are_present m (fields_get category_fields LINK_MODEL)"
    by (simp add: fields_are_present_def names_are_present_iff fields_get_def category_fields_def)
  from present show "fields_are_present m (fields_get category_fields RESOURCE_MODEL)"
    by (simp add: fields_are_present_def names_are_present_iff fields_get_def category_fields_def)
qed

text \<open>The definition \<open>Drives\<close> of the example has the fields of three categories.\<close>

theorem model_category_last_match_witness:
  "fields_are_present (root_results ! 1) [''odata_id'', ''odata_type'', ''members_odata_count'', ''members'']
   \<and> map (\<lambda>(cat, names). fields_are_present (root_results ! 1) names) category_fields
       = [True, False, True, True]
   \<and> model_category (root_results ! 1) = COLLECTION_MODEL
   \<and> map model_category root_results = [RESOURCE_MODEL, COLLECTION_MODEL, LINK_MODEL]"
proof -
  have present: "fields_are_present (root_results ! 1)
      [''odata_id'', ''odata_type'', ''members_odata_count'', ''members'']"
    by code_simp
  have rest: "map (\<lambda>(cat, names). fields_are_present (root_results ! 1) names) category_fields
       = [True, False, True, True]"
    "map model_category root_results = [RESOURCE_MODEL, COLLECTION_MODEL, LINK_MODEL]"
    by code_simp+
  from model_category_last_match [of "root_results ! 1"] present
  have "model_category (root_results ! 1) = COLLECTION_MODEL" by blast
  with present rest show ?thesis by blast
qed

end
